theory Spec2Isabelle
  imports Complex_Main "HOL-Library.Multiset"
begin

section \<open>Python values used by the engine\<close>

text \<open>
  Python integers are unbounded: \<open>int\<close>. Strings are \<open>string\<close>. The exceptions the
  modelled code can raise are values of \<open>py_error\<close>; a function that can raise returns
  \<open>py_error + 'a\<close>, with \<open>Inl\<close> the exception.
\<close>

datatype py_error = ValueError | IndexError | KeyError

subsection \<open>Floats\<close>

text \<open>
  A Python \<open>float\<close> is an IEEE 754 binary64 number. A finite one is modelled by its exact
  value, a rational number; infinities and NaN are not modelled. An arithmetic operation
  returns the exact result rounded to the nearest double, ties to the one with an even
  significand: 53 significant bits, normal exponents from \<open>-1022\<close>, and below them the
  subnormal numbers, multiples of \<open>2 ^ -1074\<close>. A result too large for a double would be
  an infinity and is outside the model; \<open>100.0 - v\<close> never is, for a double \<open>v\<close>.
\<close>

type_synonym pyfloat = rat

text \<open>\<open>int.bit_length\<close>: the number of binary digits of \<open>n\<close>.\<close>

fun bit_length :: "nat \<Rightarrow> nat" where
  "bit_length n = (if n = 0 then 0 else Suc (bit_length (n div 2)))"

declare bit_length.simps [simp del]

definition pow2 :: "int \<Rightarrow> rat" where
  "pow2 e = (if 0 \<le> e then 2 ^ nat e else 1 / 2 ^ nat (- e))"

text \<open>For \<open>x > 0\<close>, the exponent \<open>e\<close> with \<open>2 ^ e \<le> x < 2 ^ (e + 1)\<close>.\<close>

definition floor_log2 :: "rat \<Rightarrow> int" where
  "floor_log2 x =
     (if 1 \<le> x then int (bit_length (nat \<lfloor>x\<rfloor>)) - 1
      else - int (bit_length (nat (\<lceil>1 / x\<rceil> - 1))))"

definition round_half_even :: "rat \<Rightarrow> int" where
  "round_half_even x =
     (let n = \<lfloor>x\<rfloor>; r = x - of_int n
      in if r < 1 / 2 then n else if 1 / 2 < r then n + 1 else if even n then n else n + 1)"

definition float64_round :: "rat \<Rightarrow> pyfloat" where
  "float64_round x =
     (if x = 0 then 0
      else (let e = max (floor_log2 \<bar>x\<bar>) (- 1022); ulp = pow2 (e - 52)
            in of_int (round_half_even (x / ulp)) * ulp))"

text \<open>The rationals that are doubles.\<close>

definition is_float64 :: "rat \<Rightarrow> bool" where
  "is_float64 x = (float64_round x = x \<and> \<bar>x\<bar> < 2 ^ 1024)"

text \<open>The float operation \<open>a - b\<close>.\<close>

definition float_sub :: "pyfloat \<Rightarrow> pyfloat \<Rightarrow> pyfloat" where
  "float_sub a b = float64_round (a - b)"

subsection \<open>Lists\<close>

text \<open>\<open>xs.index(x)\<close> raises ValueError when \<open>x\<close> is not in the list.\<close>

fun list_index :: "'a list \<Rightarrow> 'a \<Rightarrow> py_error + nat" where
  "list_index [] x = Inl ValueError"
| "list_index (y # ys) x =
     (if y = x then Inr 0
      else (case list_index ys x of Inl e \<Rightarrow> Inl e | Inr i \<Rightarrow> Inr (Suc i)))"

text \<open>\<open>xs[i]\<close> for an index that is not negative; IndexError past the end.\<close>

definition list_getitem :: "'a list \<Rightarrow> nat \<Rightarrow> py_error + 'a" where
  "list_getitem xs i = (if i < length xs then Inr (xs ! i) else Inl IndexError)"

subsection \<open>Dictionaries\<close>

text \<open>
  A Python \<open>dict\<close> keeps its keys in insertion order, and that order is what
  \<open>.values()\<close> and \<open>.items()\<close> iterate over. It is modelled as an association list:
  \<open>d[k] = v\<close> overwrites in place when the key is present and appends otherwise,
  \<open>del d[k]\<close> drops the entry. A well-formed dictionary has distinct keys.
\<close>

type_synonym ('k, 'v) dict = "('k \<times> 'v) list"

fun dict_get :: "('k, 'v) dict \<Rightarrow> 'k \<Rightarrow> 'v option" where
  "dict_get [] k = None"
| "dict_get ((k', v) # d) k = (if k' = k then Some v else dict_get d k)"

definition dict_keys :: "('k, 'v) dict \<Rightarrow> 'k list" where
  "dict_keys d = map fst d"

definition dict_values :: "('k, 'v) dict \<Rightarrow> 'v list" where
  "dict_values d = map snd d"

definition dict_contains :: "('k, 'v) dict \<Rightarrow> 'k \<Rightarrow> bool" where
  "dict_contains d k = (dict_get d k \<noteq> None)"

fun dict_set :: "('k, 'v) dict \<Rightarrow> 'k \<Rightarrow> 'v \<Rightarrow> ('k, 'v) dict" where
  "dict_set [] k v = [(k, v)]"
| "dict_set ((k', v') # d) k v = (if k' = k then (k, v) # d else (k', v') # dict_set d k v)"

fun dict_del :: "('k, 'v) dict \<Rightarrow> 'k \<Rightarrow> ('k, 'v) dict" where
  "dict_del [] k = []"
| "dict_del ((k', v') # d) k = (if k' = k then d else (k', v') # dict_del d k)"

definition dict_wf :: "('k, 'v) dict \<Rightarrow> bool" where
  "dict_wf d = distinct (dict_keys d)"

text \<open>\<open>data.get(key, default)\<close> on a field that may be absent from a saved record.\<close>

definition data_get :: "'a option \<Rightarrow> 'a \<Rightarrow> 'a" where
  "data_get field dflt = (case field of None \<Rightarrow> dflt | Some v \<Rightarrow> v)"

subsection \<open>Integers as text\<close>

text \<open>
  A JSON object has text keys: \<open>json.dump\<close> writes an integer key as \<open>str(k)\<close>, its
  decimal text, and \<open>json.load\<close> returns it as text. \<open>int(k)\<close> reads it back. For text
  (ASCII here), \<open>int\<close> drops surrounding whitespace, takes an optional sign and then
  decimal digits, where a single underscore may stand between two digits; anything else
  raises ValueError. On an integer, \<open>int\<close> is the identity.
\<close>

datatype dict_key = IntKey int | StrKey string

definition digit_char :: "nat \<Rightarrow> char" where
  "digit_char d = ''0123456789'' ! d"

fun str_nat :: "nat \<Rightarrow> string" where
  "str_nat n = (if n < 10 then [digit_char n] else str_nat (n div 10) @ [digit_char (n mod 10)])"

declare str_nat.simps [simp del]

definition py_str :: "int \<Rightarrow> string" where
  "py_str i = (if i < 0 then CHR ''-'' # str_nat (nat (- i)) else str_nat (nat i))"

definition is_digit :: "char \<Rightarrow> bool" where
  "is_digit c = (c \<in> set ''0123456789'')"

definition digit_val :: "char \<Rightarrow> nat option" where
  "digit_val c = (case list_index ''0123456789'' c of Inl e \<Rightarrow> None | Inr d \<Rightarrow> Some d)"

definition is_space :: "char \<Rightarrow> bool" where
  "is_space c = (c \<in> set [CHR '' '', CHR 0x09, CHR 0x0A, CHR 0x0B, CHR 0x0C, CHR 0x0D,
                           CHR 0x1C, CHR 0x1D, CHR 0x1E, CHR 0x1F])"

definition strip :: "string \<Rightarrow> string" where
  "strip s = rev (dropWhile is_space (rev (dropWhile is_space s)))"

text \<open>The digits after the first one: \<open>acc\<close> is the value read so far.\<close>

fun parse_digits :: "nat \<Rightarrow> string \<Rightarrow> py_error + nat" where
  "parse_digits acc [] = Inr acc"
| "parse_digits acc (c # cs) =
     (if c = CHR ''_'' then
        (case cs of
           [] \<Rightarrow> Inl ValueError
         | c' # cs' \<Rightarrow>
             (case digit_val c' of
                None \<Rightarrow> Inl ValueError
              | Some d \<Rightarrow> parse_digits (acc * 10 + d) cs'))
      else
        (case digit_val c of
           None \<Rightarrow> Inl ValueError
         | Some d \<Rightarrow> parse_digits (acc * 10 + d) cs))"

definition parse_nat :: "string \<Rightarrow> py_error + nat" where
  "parse_nat s =
     (case s of
        [] \<Rightarrow> Inl ValueError
      | c # cs \<Rightarrow> (case digit_val c of None \<Rightarrow> Inl ValueError | Some d \<Rightarrow> parse_digits d cs))"

definition int_of_str :: "string \<Rightarrow> py_error + int" where
  "int_of_str s =
     (case strip s of
        [] \<Rightarrow> Inl ValueError
      | c # cs \<Rightarrow>
          if c = CHR ''-'' then
            (case parse_nat cs of Inl e \<Rightarrow> Inl e | Inr n \<Rightarrow> Inr (- int n))
          else if c = CHR ''+'' then
            (case parse_nat cs of Inl e \<Rightarrow> Inl e | Inr n \<Rightarrow> Inr (int n))
          else
            (case parse_nat (c # cs) of Inl e \<Rightarrow> Inl e | Inr n \<Rightarrow> Inr (int n)))"

fun py_int :: "dict_key \<Rightarrow> py_error + int" where
  "py_int (IntKey i) = Inr i"
| "py_int (StrKey s) = int_of_str s"

text \<open>What \<open>json.dump\<close> followed by \<open>json.load\<close> does to the keys of a dictionary.\<close>

fun json_key :: "dict_key \<Rightarrow> dict_key" where
  "json_key (IntKey i) = StrKey (py_str i)"
| "json_key (StrKey s) = StrKey s"

definition json_dump_load_keys :: "(dict_key, 'v) dict \<Rightarrow> (dict_key, 'v) dict" where
  "json_dump_load_keys d = map (\<lambda>(k, v). (json_key k, v)) d"

section \<open>Components (src/core/component.py)\<close>

datatype ComponentType =
  POSITION | HEALTH | INVENTORY | AI | SENSORY | MEMORY | GOAL
  | RELATIONSHIP | SCHEDULE | OCCUPATION | NEEDS | CURRENCY

text \<open>\<open>ComponentType.X.value\<close>: the tag written into a saved component record.\<close>

fun ComponentType_value :: "ComponentType \<Rightarrow> string" where
  "ComponentType_value POSITION = ''position''"
| "ComponentType_value HEALTH = ''health''"
| "ComponentType_value INVENTORY = ''inventory''"
| "ComponentType_value AI = ''ai''"
| "ComponentType_value SENSORY = ''sensory''"
| "ComponentType_value MEMORY = ''memory''"
| "ComponentType_value GOAL = ''goal''"
| "ComponentType_value RELATIONSHIP = ''relationship''"
| "ComponentType_value SCHEDULE = ''schedule''"
| "ComponentType_value OCCUPATION = ''occupation''"
| "ComponentType_value NEEDS = ''needs''"
| "ComponentType_value CURRENCY = ''currency''"

text \<open>
  \<open>class Component\<close>: every component carries \<open>entity_id\<close>, set when it is attached.
  The subclasses extend the base record, as the dataclasses extend \<open>Component\<close>; the
  \<open>component_type\<close> of an instance is fixed by its class (see \<open>component_type\<close> below).
\<close>

record Component =
  entity_id :: "int option"

text \<open>
  A saved component record (\<open>Dict[str, Any]\<close>): the keys some \<open>from_dict\<close> reads, each
  present or absent. For \<open>entity_id\<close> and \<open>current_goal\<close>, \<open>None\<close> is an absent key or
  a JSON null; no reader tells them apart. A memory is an opaque JSON object.
\<close>

datatype json =
  JNull | JBool bool | JInt int | JFloat pyfloat | JStr string
  | JList "json list" | JDict "(string \<times> json) list"

record ComponentData =
  d_type :: "string option"
  d_entity_id :: "int option"
  d_location :: "string option"
  d_x :: "pyfloat option"
  d_y :: "pyfloat option"
  d_current :: "int option"
  d_maximum :: "int option"
  d_items :: "(string, int) dict option"
  d_capacity :: "int option"
  d_amount :: "int option"
  d_relationships :: "(dict_key, int) dict option"
  d_hunger :: "pyfloat option"
  d_energy :: "pyfloat option"
  d_social :: "pyfloat option"
  d_schedule :: "(string, string) dict option"
  d_occupation :: "string option"
  d_workplace :: "string option"
  d_skill_level :: "int option"
  d_memories :: "(string, json) dict list option"
  d_max_memories :: "int option"
  d_current_goal :: "string option"
  d_goals :: "string list option"

definition empty_data :: ComponentData where
  "empty_data =
     \<lparr>d_type = None, d_entity_id = None, d_location = None, d_x = None, d_y = None,
      d_current = None, d_maximum = None, d_items = None, d_capacity = None,
      d_amount = None, d_relationships = None, d_hunger = None, d_energy = None,
      d_social = None, d_schedule = None, d_occupation = None, d_workplace = None,
      d_skill_level = None, d_memories = None, d_max_memories = None,
      d_current_goal = None, d_goals = None\<rparr>"

text \<open>\<open>Component.to_dict\<close>: the tag and the owner's id.\<close>

definition Component_to_dict :: "ComponentType \<Rightarrow> int option \<Rightarrow> ComponentData" where
  "Component_to_dict ct owner =
     empty_data\<lparr>d_type := Some (ComponentType_value ct), d_entity_id := owner\<rparr>"

text \<open>
  A component record after \<open>json.dump\<close> and \<open>json.load\<close>: of the dictionaries a record
  can hold, only \<open>relationships\<close> has keys that are not text already.
\<close>

definition json_dump_load :: "ComponentData \<Rightarrow> ComponentData" where
  "json_dump_load data =
     data\<lparr>d_relationships := map_option json_dump_load_keys (d_relationships data)\<rparr>"


subsection \<open>PositionComponent\<close>

record PositionComponent = Component +
  location :: string
  pos_x :: pyfloat
  pos_y :: pyfloat

definition PositionComponent_from_dict :: "ComponentData \<Rightarrow> PositionComponent" where
  "PositionComponent_from_dict data =
     \<lparr>entity_id = None,
      location = data_get (d_location data) ''Unknown'',
      pos_x = data_get (d_x data) 0,
      pos_y = data_get (d_y data) 0\<rparr>"

subsection \<open>HealthComponent\<close>

record HealthComponent = Component +
  current :: int
  maximum :: int

definition HealthComponent_init :: "int \<Rightarrow> int \<Rightarrow> HealthComponent" where
  "HealthComponent_init c m = \<lparr>entity_id = None, current = c, maximum = m\<rparr>"

definition is_alive :: "HealthComponent \<Rightarrow> bool" where
  "is_alive h = (current h > 0)"

definition damage :: "HealthComponent \<Rightarrow> int \<Rightarrow> HealthComponent" where
  "damage h amt = h\<lparr>current := max 0 (current h - amt)\<rparr>"

definition heal :: "HealthComponent \<Rightarrow> int \<Rightarrow> HealthComponent" where
  "heal h amt = h\<lparr>current := min (maximum h) (current h + amt)\<rparr>"

definition HealthComponent_from_dict :: "ComponentData \<Rightarrow> HealthComponent" where
  "HealthComponent_from_dict data =
     HealthComponent_init (data_get (d_current data) 100) (data_get (d_maximum data) 100)"

subsection \<open>InventoryComponent\<close>

record InventoryComponent = Component +
  items :: "(string, int) dict"
  capacity :: int

definition InventoryComponent_from_dict :: "ComponentData \<Rightarrow> InventoryComponent" where
  "InventoryComponent_from_dict data =
     \<lparr>entity_id = None,
      items = data_get (d_items data) [],
      capacity = data_get (d_capacity data) 20\<rparr>"

subsection \<open>CurrencyComponent\<close>

record CurrencyComponent = Component +
  amount :: int

definition CurrencyComponent_init :: "int \<Rightarrow> CurrencyComponent" where
  "CurrencyComponent_init a = \<lparr>entity_id = None, amount = a\<rparr>"

definition add :: "CurrencyComponent \<Rightarrow> int \<Rightarrow> CurrencyComponent" where
  "add c v = c\<lparr>amount := amount c + v\<rparr>"

text \<open>\<open>remove\<close> returns the boolean result together with the component after the call.\<close>

definition remove :: "CurrencyComponent \<Rightarrow> int \<Rightarrow> bool \<times> CurrencyComponent" where
  "remove c v = (if amount c \<ge> v then (True, c\<lparr>amount := amount c - v\<rparr>) else (False, c))"

definition has :: "CurrencyComponent \<Rightarrow> int \<Rightarrow> bool" where
  "has c v = (amount c \<ge> v)"

definition CurrencyComponent_from_dict :: "ComponentData \<Rightarrow> CurrencyComponent" where
  "CurrencyComponent_from_dict data = CurrencyComponent_init (data_get (d_amount data) 0)"

subsection \<open>RelationshipComponent\<close>

record RelationshipComponent = Component +
  relationships :: "(int, int) dict"

definition RelationshipComponent_init :: "(int, int) dict \<Rightarrow> RelationshipComponent" where
  "RelationshipComponent_init rs = \<lparr>entity_id = None, relationships = rs\<rparr>"

definition get_relationship :: "RelationshipComponent \<Rightarrow> int \<Rightarrow> int" where
  "get_relationship r target = data_get (dict_get (relationships r) target) 0"

definition modify_relationship :: "RelationshipComponent \<Rightarrow> int \<Rightarrow> int \<Rightarrow> RelationshipComponent" where
  "modify_relationship r target delta =
     (let cur = data_get (dict_get (relationships r) target) 0
      in r\<lparr>relationships := dict_set (relationships r) target (max (- 100) (min 100 (cur + delta)))\<rparr>)"

definition set_relationship :: "RelationshipComponent \<Rightarrow> int \<Rightarrow> int \<Rightarrow> RelationshipComponent" where
  "set_relationship r target v =
     r\<lparr>relationships := dict_set (relationships r) target (max (- 100) (min 100 v))\<rparr>"

text \<open>
  \<open>to_dict\<close> hands out the dictionary itself, with its integer keys; they turn into text
  only when the record goes through JSON.
\<close>

definition RelationshipComponent_to_dict :: "RelationshipComponent \<Rightarrow> ComponentData" where
  "RelationshipComponent_to_dict r =
     (Component_to_dict RELATIONSHIP (entity_id r))
       \<lparr>d_relationships := Some (map (\<lambda>(k, v). (IntKey k, v)) (relationships r))\<rparr>"

text \<open>The comprehension \<open>{int(k): v for k, v in relationships.items()}\<close>.\<close>

fun int_keys :: "(int, int) dict \<Rightarrow> (dict_key, int) dict \<Rightarrow> py_error + (int, int) dict" where
  "int_keys acc [] = Inr acc"
| "int_keys acc ((k, v) # rest) =
     (case py_int k of Inl e \<Rightarrow> Inl e | Inr i \<Rightarrow> int_keys (dict_set acc i v) rest)"

definition RelationshipComponent_from_dict :: "ComponentData \<Rightarrow> py_error + RelationshipComponent" where
  "RelationshipComponent_from_dict data =
     (case int_keys [] (data_get (d_relationships data) []) of
        Inl e \<Rightarrow> Inl e
      | Inr int_relationships \<Rightarrow> Inr (RelationshipComponent_init int_relationships))"

subsection \<open>NeedsComponent\<close>

record NeedsComponent = Component +
  hunger :: pyfloat
  energy :: pyfloat
  social :: pyfloat

text \<open>
  \<open>max(needs, key=needs.get)\<close> walks the keys in insertion order and keeps the first one
  whose value no later value exceeds: the candidate changes only for a strictly greater
  value. On an empty dictionary \<open>max\<close> raises ValueError.
\<close>

fun max_loop :: "'k \<Rightarrow> 'v::linorder \<Rightarrow> ('k, 'v) dict \<Rightarrow> 'k" where
  "max_loop best best_val [] = best"
| "max_loop best best_val ((k, v) # rest) =
     (if best_val < v then max_loop k v rest else max_loop best best_val rest)"

fun py_max_key :: "('k, 'v::linorder) dict \<Rightarrow> py_error + 'k" where
  "py_max_key [] = Inl ValueError"
| "py_max_key ((k, v) # rest) = Inr (max_loop k v rest)"

definition get_most_urgent_need :: "NeedsComponent \<Rightarrow> py_error + string" where
  "get_most_urgent_need n =
     (let needs =
            [(''hunger'', float_sub 100 (hunger n)),
             (''energy'', float_sub 100 (energy n)),
             (''social'', float_sub 100 (social n))]
      in py_max_key needs)"

definition NeedsComponent_from_dict :: "ComponentData \<Rightarrow> NeedsComponent" where
  "NeedsComponent_from_dict data =
     \<lparr>entity_id = None,
      hunger = data_get (d_hunger data) 50,
      energy = data_get (d_energy data) 100,
      social = data_get (d_social data) 50\<rparr>"

subsection \<open>ScheduleComponent, OccupationComponent, MemoryComponent, GoalComponent\<close>

record ScheduleComponent = Component +
  schedule :: "(string, string) dict"

definition ScheduleComponent_from_dict :: "ComponentData \<Rightarrow> ScheduleComponent" where
  "ScheduleComponent_from_dict data =
     \<lparr>entity_id = None, schedule = data_get (d_schedule data) []\<rparr>"

record OccupationComponent = Component +
  occupation :: string
  workplace :: string
  skill_level :: int

definition OccupationComponent_from_dict :: "ComponentData \<Rightarrow> OccupationComponent" where
  "OccupationComponent_from_dict data =
     \<lparr>entity_id = None,
      occupation = data_get (d_occupation data) ''Villager'',
      workplace = data_get (d_workplace data) ''None'',
      skill_level = data_get (d_skill_level data) 1\<rparr>"

record MemoryComponent = Component +
  memories :: "(string, json) dict list"
  max_memories :: int

definition MemoryComponent_from_dict :: "ComponentData \<Rightarrow> MemoryComponent" where
  "MemoryComponent_from_dict data =
     \<lparr>entity_id = None,
      memories = data_get (d_memories data) [],
      max_memories = data_get (d_max_memories data) 50\<rparr>"

record GoalComponent = Component +
  current_goal :: "string option"
  goals :: "string list"

definition GoalComponent_from_dict :: "ComponentData \<Rightarrow> GoalComponent" where
  "GoalComponent_from_dict data =
     \<lparr>entity_id = None,
      current_goal = d_current_goal data,
      goals = data_get (d_goals data) []\<rparr>"

subsection \<open>Any component, and the registry\<close>

datatype component =
  PositionC PositionComponent
  | HealthC HealthComponent
  | InventoryC InventoryComponent
  | CurrencyC CurrencyComponent
  | RelationshipC RelationshipComponent
  | NeedsC NeedsComponent
  | ScheduleC ScheduleComponent
  | OccupationC OccupationComponent
  | MemoryC MemoryComponent
  | GoalC GoalComponent

text \<open>The \<open>component_type\<close> each class passes to \<open>Component.__init__\<close>.\<close>

fun component_type :: "component \<Rightarrow> ComponentType" where
  "component_type (PositionC c) = POSITION"
| "component_type (HealthC c) = HEALTH"
| "component_type (InventoryC c) = INVENTORY"
| "component_type (CurrencyC c) = CURRENCY"
| "component_type (RelationshipC c) = RELATIONSHIP"
| "component_type (NeedsC c) = NEEDS"
| "component_type (ScheduleC c) = SCHEDULE"
| "component_type (OccupationC c) = OCCUPATION"
| "component_type (MemoryC c) = MEMORY"
| "component_type (GoalC c) = GOAL"

text \<open>The assignment \<open>component.entity_id = owner\<close>.\<close>

fun set_entity_id :: "component \<Rightarrow> int option \<Rightarrow> component" where
  "set_entity_id (PositionC c) owner = PositionC (c\<lparr>entity_id := owner\<rparr>)"
| "set_entity_id (HealthC c) owner = HealthC (c\<lparr>entity_id := owner\<rparr>)"
| "set_entity_id (InventoryC c) owner = InventoryC (c\<lparr>entity_id := owner\<rparr>)"
| "set_entity_id (CurrencyC c) owner = CurrencyC (c\<lparr>entity_id := owner\<rparr>)"
| "set_entity_id (RelationshipC c) owner = RelationshipC (c\<lparr>entity_id := owner\<rparr>)"
| "set_entity_id (NeedsC c) owner = NeedsC (c\<lparr>entity_id := owner\<rparr>)"
| "set_entity_id (ScheduleC c) owner = ScheduleC (c\<lparr>entity_id := owner\<rparr>)"
| "set_entity_id (OccupationC c) owner = OccupationC (c\<lparr>entity_id := owner\<rparr>)"
| "set_entity_id (MemoryC c) owner = MemoryC (c\<lparr>entity_id := owner\<rparr>)"
| "set_entity_id (GoalC c) owner = GoalC (c\<lparr>entity_id := owner\<rparr>)"

text \<open>
  \<open>COMPONENT_REGISTRY\<close> maps a tag to the class whose \<open>from_dict\<close> reads the record.
  The tags of \<open>AI\<close> and \<open>SENSORY\<close> have no entry.
\<close>

definition COMPONENT_REGISTRY :: "(string, ComponentData \<Rightarrow> py_error + component) dict" where
  "COMPONENT_REGISTRY =
     [(ComponentType_value POSITION, \<lambda>data. Inr (PositionC (PositionComponent_from_dict data))),
      (ComponentType_value HEALTH, \<lambda>data. Inr (HealthC (HealthComponent_from_dict data))),
      (ComponentType_value INVENTORY, \<lambda>data. Inr (InventoryC (InventoryComponent_from_dict data))),
      (ComponentType_value CURRENCY, \<lambda>data. Inr (CurrencyC (CurrencyComponent_from_dict data))),
      (ComponentType_value RELATIONSHIP,
         \<lambda>data. (case RelationshipComponent_from_dict data of
                   Inl e \<Rightarrow> Inl e | Inr r \<Rightarrow> Inr (RelationshipC r))),
      (ComponentType_value NEEDS, \<lambda>data. Inr (NeedsC (NeedsComponent_from_dict data))),
      (ComponentType_value SCHEDULE, \<lambda>data. Inr (ScheduleC (ScheduleComponent_from_dict data))),
      (ComponentType_value OCCUPATION, \<lambda>data. Inr (OccupationC (OccupationComponent_from_dict data))),
      (ComponentType_value MEMORY, \<lambda>data. Inr (MemoryC (MemoryComponent_from_dict data))),
      (ComponentType_value GOAL, \<lambda>data. Inr (GoalC (GoalComponent_from_dict data)))]"

text \<open>
  \<open>create_component_from_dict\<close>: \<open>None\<close> for a tag the registry does not have (an
  absent \<open>type\<close> key reads as Python's \<open>None\<close>, which is no key of the registry either).
\<close>

definition create_component_from_dict :: "ComponentData \<Rightarrow> py_error + component option" where
  "create_component_from_dict data =
     (case d_type data of
        None \<Rightarrow> Inr None
      | Some tag \<Rightarrow>
          (case dict_get COMPONENT_REGISTRY tag of
             None \<Rightarrow> Inr None
           | Some from_dict \<Rightarrow>
               (case from_dict data of Inl e \<Rightarrow> Inl e | Inr c \<Rightarrow> Inr (Some c))))"

text \<open>A saved component record whose tag the registry can read.\<close>

definition known_tag :: "ComponentData \<Rightarrow> bool" where
  "known_tag data =
     (case d_type data of None \<Rightarrow> False | Some tag \<Rightarrow> dict_contains COMPONENT_REGISTRY tag)"


section \<open>Entities (src/core/entity.py)\<close>

text \<open>
  \<open>Entity._next_id\<close> is a class variable, shared by every entity and every manager of
  the process. The functions that read or advance it take its value and return the new
  one.
\<close>

record Entity =
  id' :: int
  name :: string
  entity_type :: string
  components :: "(ComponentType, component) dict"
  active :: bool

text \<open>\<open>Entity.__init__\<close>: the entity, and \<open>_next_id\<close> after the call.\<close>

definition Entity_init :: "int \<Rightarrow> string \<Rightarrow> string \<Rightarrow> Entity \<times> int" where
  "Entity_init next_id nm ty =
     (\<lparr>id' = next_id, name = nm, entity_type = ty, components = [], active = True\<rparr>,
      next_id + 1)"

definition add_component :: "Entity \<Rightarrow> component \<Rightarrow> bool \<times> Entity" where
  "add_component e c =
     (if dict_contains (components e) (component_type c) then (False, e)
      else (True, e\<lparr>components :=
              dict_set (components e) (component_type c) (set_entity_id c (Some (id' e)))\<rparr>))"

definition remove_component :: "Entity \<Rightarrow> ComponentType \<Rightarrow> bool \<times> Entity" where
  "remove_component e ct =
     (if dict_contains (components e) ct then (True, e\<lparr>components := dict_del (components e) ct\<rparr>)
      else (False, e))"

definition get_component :: "Entity \<Rightarrow> ComponentType \<Rightarrow> component option" where
  "get_component e ct = dict_get (components e) ct"

definition has_component :: "Entity \<Rightarrow> ComponentType \<Rightarrow> bool" where
  "has_component e ct = dict_contains (components e) ct"

text \<open>\<open>all(ct in self.components for ct in component_types)\<close>.\<close>

fun has_components :: "Entity \<Rightarrow> ComponentType list \<Rightarrow> bool" where
  "has_components e [] = True"
| "has_components e (ct # cts) = (if dict_contains (components e) ct then has_components e cts else False)"

definition get_components :: "Entity \<Rightarrow> component list" where
  "get_components e = dict_values (components e)"

text \<open>A saved entity record; every key may be absent.\<close>

record EntityData =
  e_id :: "int option"
  e_name :: "string option"
  e_entity_type :: "string option"
  e_active :: "bool option"
  e_components :: "ComponentData list option"

text \<open>The loop of \<open>Entity.from_dict\<close> over the saved component records.\<close>

fun restore_components :: "Entity \<Rightarrow> ComponentData list \<Rightarrow> py_error + Entity" where
  "restore_components entity [] = Inr entity"
| "restore_components entity (comp_data # rest) =
     (case create_component_from_dict comp_data of
        Inl e \<Rightarrow> Inl e
      | Inr None \<Rightarrow> restore_components entity rest
      | Inr (Some c) \<Rightarrow> restore_components (snd (add_component entity c)) rest)"

text \<open>
  \<open>Entity.from_dict\<close>: the constructor takes an id from \<open>_next_id\<close> first, then the saved
  id replaces it. The second component is \<open>_next_id\<close> after the call, also when a
  component record makes the call raise.
\<close>

definition Entity_from_dict :: "int \<Rightarrow> EntityData \<Rightarrow> (py_error + Entity) \<times> int" where
  "Entity_from_dict next_id data =
     (let (entity, next_id') =
            Entity_init next_id (data_get (e_name data) ''Unnamed Entity'')
              (data_get (e_entity_type data) ''Generic'');
          entity = entity\<lparr>id' := data_get (e_id data) (id' entity)\<rparr>;
          entity = entity\<lparr>active := data_get (e_active data) True\<rparr>
      in (restore_components entity (data_get (e_components data) []), next_id'))"

subsection \<open>EntityManager\<close>

record EntityManager =
  entities :: "(int, Entity) dict"
  entities_by_type :: "(string, int list) dict"

definition EntityManager_init :: EntityManager where
  "EntityManager_init = \<lparr>entities = [], entities_by_type = []\<rparr>"

text \<open>
  \<open>add_entity\<close>: the type's list is created when missing, then the id is appended to it.
\<close>

definition add_entity :: "EntityManager \<Rightarrow> Entity \<Rightarrow> bool \<times> EntityManager" where
  "add_entity m entity =
     (if dict_contains (entities m) (id' entity) then (False, m)
      else
        (let by_type =
               (if \<not> dict_contains (entities_by_type m) (entity_type entity)
                then dict_set (entities_by_type m) (entity_type entity) []
                else entities_by_type m)
         in (True,
             m\<lparr>entities := dict_set (entities m) (id' entity) entity,
               entities_by_type :=
                 dict_set by_type (entity_type entity)
                   (data_get (dict_get by_type (entity_type entity)) [] @ [id' entity])\<rparr>)))"

text \<open>\<open>create_entity\<close>: the new entity, the manager and \<open>_next_id\<close> after the call.\<close>

definition create_entity :: "int \<Rightarrow> string \<Rightarrow> string \<Rightarrow> EntityManager \<Rightarrow> Entity \<times> EntityManager \<times> int" where
  "create_entity next_id nm ty m =
     (let (entity, next_id') = Entity_init next_id nm ty
      in (entity, snd (add_entity m entity), next_id'))"

text \<open>\<open>remove_entity\<close>: \<open>list.remove\<close> takes out the first occurrence of the id.\<close>

definition remove_entity :: "EntityManager \<Rightarrow> int \<Rightarrow> bool \<times> EntityManager" where
  "remove_entity m eid =
     (case dict_get (entities m) eid of
        None \<Rightarrow> (False, m)
      | Some entity \<Rightarrow>
          (let by_type =
                 (case dict_get (entities_by_type m) (entity_type entity) of
                    None \<Rightarrow> entities_by_type m
                  | Some ids \<Rightarrow>
                      if eid \<in> set ids
                      then dict_set (entities_by_type m) (entity_type entity) (remove1 eid ids)
                      else entities_by_type m)
           in (True, m\<lparr>entities_by_type := by_type, entities := dict_del (entities m) eid\<rparr>)))"

definition get_entity :: "EntityManager \<Rightarrow> int \<Rightarrow> Entity option" where
  "get_entity m eid = dict_get (entities m) eid"

definition get_all_entities :: "EntityManager \<Rightarrow> Entity list" where
  "get_all_entities m = dict_values (entities m)"

definition get_active_entities :: "EntityManager \<Rightarrow> Entity list" where
  "get_active_entities m = filter active (dict_values (entities m))"

text \<open>The loop of \<open>query_entities\<close>: \<open>results\<close> grows by \<open>append\<close>.\<close>

fun query_loop :: "ComponentType list \<Rightarrow> Entity list \<Rightarrow> Entity list \<Rightarrow> Entity list" where
  "query_loop required results [] = results"
| "query_loop required results (entity # rest) =
     (if active entity \<and> has_components entity required
      then query_loop required (results @ [entity]) rest
      else query_loop required results rest)"

definition query_entities :: "EntityManager \<Rightarrow> ComponentType list \<Rightarrow> Entity list" where
  "query_entities m required_components = query_loop required_components [] (dict_values (entities m))"

definition count_entities :: "EntityManager \<Rightarrow> nat" where
  "count_entities m = length (entities m)"

definition count_entities_by_type :: "EntityManager \<Rightarrow> string \<Rightarrow> nat" where
  "count_entities_by_type m ty = length (data_get (dict_get (entities_by_type m) ty) [])"

definition clear :: "EntityManager \<Rightarrow> EntityManager" where
  "clear m = m\<lparr>entities := [], entities_by_type := []\<rparr>"

text \<open>A saved manager: the \<open>entities\<close> key, which may be absent.\<close>

record ManagerData =
  entities_data :: "EntityData list option"

text \<open>
  The loop of \<open>EntityManager.from_dict\<close>: each record is read, added, and \<open>_next_id\<close> is
  moved past its id.
\<close>

fun load_entities :: "EntityManager \<Rightarrow> int \<Rightarrow> EntityData list \<Rightarrow> (py_error + EntityManager) \<times> int" where
  "load_entities manager next_id [] = (Inr manager, next_id)"
| "load_entities manager next_id (entity_data # rest) =
     (case Entity_from_dict next_id entity_data of
        (Inl e, next_id') \<Rightarrow> (Inl e, next_id')
      | (Inr entity, next_id') \<Rightarrow>
          load_entities (snd (add_entity manager entity))
            (if id' entity \<ge> next_id' then id' entity + 1 else next_id') rest)"

definition EntityManager_from_dict :: "int \<Rightarrow> ManagerData \<Rightarrow> (py_error + EntityManager) \<times> int" where
  "EntityManager_from_dict next_id data =
     load_entities EntityManager_init next_id (data_get (entities_data data) [])"

section \<open>Game state (src/core/game_state.py)\<close>

definition MORNING :: string where "MORNING = ''morning''"
definition AFTERNOON :: string where "AFTERNOON = ''afternoon''"
definition EVENING :: string where "EVENING = ''evening''"
definition NIGHT :: string where "NIGHT = ''night''"

definition TimeOfDay_get_all :: "string list" where
  "TimeOfDay_get_all = [MORNING, AFTERNOON, EVENING, NIGHT]"

text \<open>\<open>get_next\<close>: the \<open>try\<close> block catches the ValueError of \<open>index\<close>, nothing else.\<close>

definition TimeOfDay_get_next :: "string \<Rightarrow> py_error + string" where
  "TimeOfDay_get_next cur =
     (let times = TimeOfDay_get_all
      in case list_index times cur of
           Inl ValueError \<Rightarrow> Inr MORNING
         | Inl e \<Rightarrow> Inl e
         | Inr index \<Rightarrow>
             (case list_getitem times ((index + 1) mod length times) of
                Inl ValueError \<Rightarrow> Inr MORNING
              | r \<Rightarrow> r))"

definition SPRING :: string where "SPRING = ''spring''"
definition SUMMER :: string where "SUMMER = ''summer''"
definition FALL :: string where "FALL = ''fall''"
definition WINTER :: string where "WINTER = ''winter''"

definition Season_get_all :: "string list" where
  "Season_get_all = [SPRING, SUMMER, FALL, WINTER]"

definition Season_get_next :: "string \<Rightarrow> py_error + string" where
  "Season_get_next cur =
     (let seasons = Season_get_all
      in case list_index seasons cur of
           Inl ValueError \<Rightarrow> Inr SPRING
         | Inl e \<Rightarrow> Inl e
         | Inr index \<Rightarrow>
             (case list_getitem seasons ((index + 1) mod length seasons) of
                Inl ValueError \<Rightarrow> Inr SPRING
              | r \<Rightarrow> r))"

definition SUNNY :: string where "SUNNY = ''sunny''"

record GameState =
  entity_manager :: EntityManager
  day_count :: int
  time_of_day :: string
  season :: string
  year :: int
  current_weather :: string
  player_id :: "int option"
  game_name :: string
  created_at :: string
  last_saved :: "string option"

text \<open>\<open>GameState.__init__\<close>; \<open>now\<close> is the clock's \<open>datetime.now().isoformat()\<close>.\<close>

definition GameState_init :: "string \<Rightarrow> GameState" where
  "GameState_init now =
     \<lparr>entity_manager = EntityManager_init, day_count = 1, time_of_day = MORNING,
      season = SPRING, year = 1, current_weather = SUNNY, player_id = None,
      game_name = ''Farming Village'', created_at = now, last_saved = None\<rparr>"

definition advance_time :: "GameState \<Rightarrow> py_error + GameState" where
  "advance_time g =
     (case TimeOfDay_get_next (time_of_day g) of
        Inl e \<Rightarrow> Inl e
      | Inr t \<Rightarrow>
          (let g = g\<lparr>time_of_day := t\<rparr>
           in if time_of_day g = MORNING then
                (let g = g\<lparr>day_count := day_count g + 1\<rparr>
                 in if day_count g mod 28 = 0 then
                      (case Season_get_next (season g) of
                         Inl e \<Rightarrow> Inl e
                       | Inr s \<Rightarrow>
                           (let g = g\<lparr>season := s\<rparr>
                            in if season g = SPRING then Inr (g\<lparr>year := year g + 1\<rparr>)
                               else Inr g))
                    else Inr g)
              else Inr g))"

text \<open>\<open>n\<close> calls of \<open>advance_time\<close> in a row; an exception ends the run.\<close>

fun advance_time_n :: "nat \<Rightarrow> GameState \<Rightarrow> py_error + GameState" where
  "advance_time_n 0 g = Inr g"
| "advance_time_n (Suc n) g =
     (case advance_time g of Inl e \<Rightarrow> Inl e | Inr g' \<Rightarrow> advance_time_n n g')"

section \<open>Consistency of the manager's two indexes\<close>

text \<open>
  The managers that can arise: the empty one, and what \<open>create_entity\<close> (at any value of
  \<open>_next_id\<close>), \<open>add_entity\<close> (of any entity), \<open>remove_entity\<close> and \<open>clear\<close> make of one.
\<close>

inductive reachable :: "EntityManager \<Rightarrow> bool" where
  reachable_init: "reachable EntityManager_init"
| reachable_create: "reachable m \<Longrightarrow> reachable (fst (snd (create_entity next_id nm ty m)))"
| reachable_add: "reachable m \<Longrightarrow> reachable (snd (add_entity m entity))"
| reachable_remove: "reachable m \<Longrightarrow> reachable (snd (remove_entity m eid))"
| reachable_clear: "reachable m \<Longrightarrow> reachable (clear m)"

text \<open>Every id in the list of a type is the key of an entity of that type.\<close>

definition by_type_sound :: "EntityManager \<Rightarrow> bool" where
  "by_type_sound m =
     (\<forall>(ty, ids) \<in> set (entities_by_type m). \<forall>i \<in> set ids.
        (case dict_get (entities m) i of None \<Rightarrow> False | Some e \<Rightarrow> entity_type e = ty))"

text \<open>
  Both dictionaries have distinct keys; the ids in the lists of \<open>entities_by_type\<close>, all
  types together and counted with repetition, are the keys of \<open>entities\<close>; and each id
  stands under the type of its entity.
\<close>

definition index_consistent :: "EntityManager \<Rightarrow> bool" where
  "index_consistent m =
     (dict_wf (entities m) \<and> dict_wf (entities_by_type m)
      \<and> mset (concat (dict_values (entities_by_type m))) = mset (dict_keys (entities m))
      \<and> by_type_sound m)"

section \<open>Example worlds\<close>

text \<open>
  An active entity with Position, Health and Inventory, an inactive one with the same
  components, and a manager that holds both.
\<close>

definition hero :: Entity where
  "hero =
     snd (add_component
       (snd (add_component
         (snd (add_component (fst (Entity_init 1 ''Hero'' ''Player''))
           (PositionC (PositionComponent_from_dict empty_data))))
         (HealthC (HealthComponent_init 100 100))))
       (InventoryC (InventoryComponent_from_dict empty_data)))"

definition ghost :: Entity where
  "ghost = hero\<lparr>id' := 2, name := ''Ghost'', active := False\<rparr>"

definition village :: EntityManager where
  "village = snd (add_entity (snd (add_entity EntityManager_init hero)) ghost)"


text \<open>A saved entity with two known component records and three the registry cannot read.\<close>

definition saved_hero :: EntityData where
  "saved_hero =
     \<lparr>e_id = Some 5, e_name = Some ''Hero'', e_entity_type = Some ''Player'',
      e_active = Some True,
      e_components = Some
        [empty_data\<lparr>d_type := Some ''health'', d_entity_id := Some 5, d_current := Some 80\<rparr>,
         empty_data\<lparr>d_type := Some ''physics'', d_entity_id := Some 5, d_amount := Some 3\<rparr>,
         empty_data\<lparr>d_type := Some ''ai'', d_entity_id := Some 5\<rparr>,
         empty_data\<lparr>d_entity_id := Some 5\<rparr>,
         empty_data\<lparr>d_type := Some ''currency'', d_entity_id := Some 5, d_amount := Some 100\<rparr>]\<rparr>"

definition restored_hero :: Entity where
  "restored_hero =
     \<lparr>id' = 5, name = ''Hero'', entity_type = ''Player'',
      components =
        [(HEALTH, HealthC \<lparr>entity_id = Some 5, current = 80, maximum = 100\<rparr>),
         (CURRENCY, CurrencyC \<lparr>entity_id = Some 5, amount = 100\<rparr>)],
      active = True\<rparr>"

text \<open>A saved world: that entity, and one whose record has no id.\<close>

definition saved_world :: ManagerData where
  "saved_world =
     \<lparr>entities_data = Some
        [saved_hero,
         \<lparr>e_id = None, e_name = Some ''Wheat'', e_entity_type = Some ''Crop'',
          e_active = None, e_components = None\<rparr>]\<rparr>"

definition loaded_world :: EntityManager where
  "loaded_world =
     \<lparr>entities =
        [(5, restored_hero),
         (6, \<lparr>id' = 6, name = ''Wheat'', entity_type = ''Crop'', components = [], active = True\<rparr>)],
      entities_by_type = [(''Player'', [5]), (''Crop'', [6])]\<rparr>"


text \<open>The relationships of a player towards three other entities.\<close>

definition player_relationships :: RelationshipComponent where
  "player_relationships =
     \<lparr>entity_id = Some 1, relationships = [(2, 60), (- 3, 30), (7, - 100)]\<rparr>"


section \<open>Verified properties\<close>

subsection \<open>Health: damage followed by heal\<close>

text \<open>
  C2, as the specification states it: for every HealthComponent with
  \<open>0 \<le> current \<le> maximum\<close> and every \<open>d \<le> maximum\<close>, \<open>damage(d)\<close> then \<open>heal(d)\<close>
  leaves \<open>current\<close> at its value before the damage. This fails whenever the damage
  exceeds the current health: \<open>damage\<close> stops at 0 and the lost part of \<open>d\<close> is healed
  back on top. With current = 5, maximum = 100 and d = 10 the result is 10, not 5.
\<close>

theorem C2_damage_heal_counterexample:
  "0 \<le> current (HealthComponent_init 5 100)
   \<and> current (HealthComponent_init 5 100) \<le> maximum (HealthComponent_init 5 100)
   \<and> (10::int) \<le> maximum (HealthComponent_init 5 100)
   \<and> current (heal (damage (HealthComponent_init 5 100) 10) 10) = 10
   \<and> current (heal (damage (HealthComponent_init 5 100) 10) 10)
        \<noteq> min (maximum (HealthComponent_init 5 100)) (current (HealthComponent_init 5 100))"
  by (simp add: HealthComponent_init_def damage_def heal_def)

text \<open>
  C2, amended: for every HealthComponent with \<open>0 \<le> current \<le> maximum\<close> and every
  \<open>d \<le> maximum\<close>, \<open>damage(d)\<close> then \<open>heal(d)\<close> leaves \<open>current\<close> equal to the larger of
  its value before the damage and \<open>d\<close>, and changes nothing else; so \<open>current\<close> returns
  to its value before the damage exactly when \<open>d \<le> current\<close>.
\<close>

theorem C2_damage_heal:
  assumes "0 \<le> current h" and "current h \<le> maximum h" and "d \<le> maximum h"
  shows "heal (damage h d) d = h\<lparr>current := max (current h) d\<rparr>
       \<and> (d \<le> current h \<longleftrightarrow> current (heal (damage h d) d) = current h)"
  using assms by (auto simp: damage_def heal_def)

theorem C2_damage_heal_witness:
  "0 \<le> current (HealthComponent_init 80 100)
   \<and> current (HealthComponent_init 80 100) \<le> maximum (HealthComponent_init 80 100)
   \<and> (30::int) \<le> maximum (HealthComponent_init 80 100)
   \<and> heal (damage (HealthComponent_init 80 100) 30) 30 = HealthComponent_init 80 100
   \<and> current (heal (damage (HealthComponent_init 80 100) 30) 30) = 80"
  using C2_damage_heal [of "HealthComponent_init 80 100" 30]
  by (simp add: HealthComponent_init_def)

subsection \<open>Currency: all-or-nothing removal\<close>

text \<open>
  C5: for a CurrencyComponent with amount \<open>a\<close> and every \<open>b\<close> with \<open>a \<ge> b \<ge> 0\<close>,
  \<open>remove(b)\<close> returns true and leaves amount \<open>a - b\<close> (which is not negative), and
  \<open>remove(a + 1)\<close> returns false and leaves the component unchanged.
\<close>

theorem C5_currency_remove:
  assumes "amount c = a" and "b \<le> a" and "0 \<le> b"
  shows "remove c b = (True, c\<lparr>amount := a - b\<rparr>)
       \<and> 0 \<le> amount (snd (remove c b))
       \<and> remove c (a + 1) = (False, c)"
  using assms by (auto simp: remove_def)

theorem C5_currency_remove_witness:
  "amount (CurrencyComponent_init 100) = 100 \<and> (30::int) \<le> 100 \<and> (0::int) \<le> 30
   \<and> remove (CurrencyComponent_init 100) 30 = (True, CurrencyComponent_init 70)
   \<and> 0 \<le> amount (snd (remove (CurrencyComponent_init 100) 30))
   \<and> remove (CurrencyComponent_init 100) (100 + 1) = (False, CurrencyComponent_init 100)"
  using C5_currency_remove [of "CurrencyComponent_init 100" 100 30]
  by (simp add: CurrencyComponent_init_def)

subsection \<open>The calendar\<close>

lemmas label_defs =
  MORNING_def AFTERNOON_def EVENING_def NIGHT_def SPRING_def SUMMER_def FALL_def WINTER_def
  TimeOfDay_get_all_def Season_get_all_def

lemma list_index_Inl: "list_index xs x = Inl e \<Longrightarrow> e = ValueError \<and> x \<notin> set xs"
  by (induction xs) (auto split: if_splits sum.splits)

lemma list_index_Inr: "list_index xs x = Inr i \<Longrightarrow> i < length xs \<and> xs ! i = x"
  by (induction xs arbitrary: i) (auto split: if_splits sum.splits)

lemma list_index_notin: "x \<notin> set xs \<Longrightarrow> list_index xs x = Inl ValueError"
  by (induction xs) (auto split: if_splits sum.splits)

text \<open>The body shared by both \<open>get_next\<close> functions returns for every input.\<close>

lemma get_next_total:
  "xs \<noteq> [] \<Longrightarrow>
   \<exists>r. (case list_index xs cur of
          Inl ValueError \<Rightarrow> Inr d
        | Inl e \<Rightarrow> Inl e
        | Inr index \<Rightarrow>
            (case list_getitem xs ((index + 1) mod length xs) of
               Inl ValueError \<Rightarrow> Inr d
             | r \<Rightarrow> r)) = Inr r"
  by (auto split: sum.splits py_error.splits simp: list_getitem_def dest: list_index_Inl)

lemma TimeOfDay_get_next_total: "\<exists>r. TimeOfDay_get_next cur = Inr r"
  unfolding TimeOfDay_get_next_def Let_def
  by (rule get_next_total) (simp add: TimeOfDay_get_all_def)

lemma Season_get_next_total: "\<exists>r. Season_get_next cur = Inr r"
  unfolding Season_get_next_def Let_def
  by (rule get_next_total) (simp add: Season_get_all_def)

lemma TimeOfDay_get_next_unknown:
  "cur \<notin> set TimeOfDay_get_all \<Longrightarrow> TimeOfDay_get_next cur = Inr MORNING"
  by (simp add: TimeOfDay_get_next_def list_index_notin)

lemma Season_get_next_unknown:
  "cur \<notin> set Season_get_all \<Longrightarrow> Season_get_next cur = Inr SPRING"
  by (simp add: Season_get_next_def list_index_notin)

lemma advance_time_total: "\<exists>g'. advance_time g = Inr g'"
proof -
  obtain t where t: "TimeOfDay_get_next (time_of_day g) = Inr t"
    using TimeOfDay_get_next_total by blast
  obtain s where s: "Season_get_next (season g) = Inr s"
    using Season_get_next_total by blast
  show ?thesis
    by (simp add: advance_time_def t s Let_def)
qed

lemma advance_time_n_total: "\<exists>g'. advance_time_n n g = Inr g'"
proof (induction n arbitrary: g)
  case 0
  show ?case by simp
next
  case (Suc n)
  obtain g1 where "advance_time g = Inr g1"
    using advance_time_total by blast
  then show ?case using Suc [of g1] by simp
qed

lemma tod_next:
  "TimeOfDay_get_next MORNING = Inr AFTERNOON"
  "TimeOfDay_get_next AFTERNOON = Inr EVENING"
  "TimeOfDay_get_next EVENING = Inr NIGHT"
  "TimeOfDay_get_next NIGHT = Inr MORNING"
  by (simp_all add: TimeOfDay_get_next_def label_defs list_getitem_def)

lemma season_next:
  "Season_get_next SPRING = Inr SUMMER"
  "Season_get_next SUMMER = Inr FALL"
  "Season_get_next FALL = Inr WINTER"
  "Season_get_next WINTER = Inr SPRING"
  by (simp_all add: Season_get_next_def label_defs list_getitem_def)

lemma tod_distinct: "AFTERNOON \<noteq> MORNING" "EVENING \<noteq> MORNING" "NIGHT \<noteq> MORNING"
  by (simp_all add: label_defs)

lemma season_distinct: "SUMMER \<noteq> SPRING" "FALL \<noteq> SPRING" "WINTER \<noteq> SPRING"
  by (simp_all add: label_defs)

text \<open>One call, by the branch it takes.\<close>

lemma step_same_day:
  assumes "TimeOfDay_get_next (time_of_day g) = Inr t" and "t \<noteq> MORNING"
  shows "advance_time g = Inr (g\<lparr>time_of_day := t\<rparr>)"
  using assms by (simp add: advance_time_def)

lemma step_next_day:
  assumes "TimeOfDay_get_next (time_of_day g) = Inr MORNING"
    and "(day_count g + 1) mod 28 \<noteq> 0"
  shows "advance_time g = Inr (g\<lparr>time_of_day := MORNING, day_count := day_count g + 1\<rparr>)"
  using assms by (simp add: advance_time_def)

lemma step_next_season:
  assumes "TimeOfDay_get_next (time_of_day g) = Inr MORNING"
    and "(day_count g + 1) mod 28 = 0"
    and "Season_get_next (season g) = Inr s"
  shows "advance_time g =
     Inr (g\<lparr>time_of_day := MORNING, day_count := day_count g + 1, season := s,
             year := (if s = SPRING then year g + 1 else year g)\<rparr>)"
  using assms by (simp add: advance_time_def)

lemma advance_time_n_add:
  "advance_time_n (a + b) g =
     (case advance_time_n a g of Inl e \<Rightarrow> Inl e | Inr g' \<Rightarrow> advance_time_n b g')"
  by (induction a arbitrary: g) (auto split: sum.splits)

lemma advance_then:
  "advance_time_n a g = Inr g1 \<Longrightarrow> advance_time_n b g1 = r \<Longrightarrow> advance_time_n (a + b) g = r"
  by (simp add: advance_time_n_add)

text \<open>A day is four calls: three inside the day, the fourth into the next morning.\<close>

lemma until_night:
  assumes "time_of_day g = MORNING"
  shows "advance_time_n 3 g = Inr (g\<lparr>time_of_day := NIGHT\<rparr>)"
proof -
  have 1: "advance_time g = Inr (g\<lparr>time_of_day := AFTERNOON\<rparr>)"
    using assms by (intro step_same_day) (simp_all add: tod_next tod_distinct)
  have 2: "advance_time (g\<lparr>time_of_day := AFTERNOON\<rparr>) = Inr (g\<lparr>time_of_day := EVENING\<rparr>)"
    using step_same_day [of "g\<lparr>time_of_day := AFTERNOON\<rparr>" EVENING]
    by (simp add: tod_next tod_distinct)
  have 3: "advance_time (g\<lparr>time_of_day := EVENING\<rparr>) = Inr (g\<lparr>time_of_day := NIGHT\<rparr>)"
    using step_same_day [of "g\<lparr>time_of_day := EVENING\<rparr>" NIGHT]
    by (simp add: tod_next tod_distinct)
  have "advance_time_n (Suc (Suc (Suc 0))) g = Inr (g\<lparr>time_of_day := NIGHT\<rparr>)"
    by (simp add: 1 2 3)
  then show ?thesis by (simp add: numeral_eq_Suc)
qed

lemma day_plain:
  assumes "time_of_day g = MORNING" and "(day_count g + 1) mod 28 \<noteq> 0"
  shows "advance_time_n 4 g = Inr (g\<lparr>day_count := day_count g + 1\<rparr>)"
proof -
  let ?n = "g\<lparr>time_of_day := NIGHT\<rparr>"
  have "advance_time ?n = Inr (?n\<lparr>time_of_day := MORNING, day_count := day_count ?n + 1\<rparr>)"
    using assms(2) by (intro step_next_day) (simp_all add: tod_next)
  moreover have "?n\<lparr>time_of_day := MORNING, day_count := day_count ?n + 1\<rparr>
      = g\<lparr>day_count := day_count g + 1\<rparr>"
    using assms(1) by simp
  ultimately have "advance_time_n 1 ?n = Inr (g\<lparr>day_count := day_count g + 1\<rparr>)"
    by simp
  from advance_then [OF until_night [OF assms(1)] this] show ?thesis by simp
qed

lemma day_turn:
  assumes "time_of_day g = MORNING" and "(day_count g + 1) mod 28 = 0"
    and "Season_get_next (season g) = Inr s"
  shows "advance_time_n 4 g =
     Inr (g\<lparr>day_count := day_count g + 1, season := s,
             year := (if s = SPRING then year g + 1 else year g)\<rparr>)"
proof -
  let ?n = "g\<lparr>time_of_day := NIGHT\<rparr>"
  let ?r = "g\<lparr>day_count := day_count g + 1, season := s,
             year := (if s = SPRING then year g + 1 else year g)\<rparr>"
  have "advance_time ?n = Inr (?n\<lparr>time_of_day := MORNING, day_count := day_count ?n + 1,
           season := s, year := (if s = SPRING then year ?n + 1 else year ?n)\<rparr>)"
    using assms(2,3) by (intro step_next_season) (simp_all add: tod_next)
  moreover have "?n\<lparr>time_of_day := MORNING, day_count := day_count ?n + 1,
           season := s, year := (if s = SPRING then year ?n + 1 else year ?n)\<rparr> = ?r"
    using assms(1) by simp
  ultimately have "advance_time_n 1 ?n = Inr ?r"
    by simp
  from advance_then [OF until_night [OF assms(1)] this] show ?thesis by simp
qed

lemma mod28_shift: "((d::int) + k) mod 28 = (d mod 28 + k) mod 28"
  by (simp add: mod_add_left_eq)

lemma mod28_step:
  "0 < (d::int) mod 28 \<Longrightarrow> d mod 28 + 1 < 28 \<Longrightarrow> (d + 1) mod 28 = d mod 28 + 1"
  by (simp only: mod28_shift [of d 1]) simp

text \<open>Days that do not reach a multiple of 28 only move \<open>day_count\<close>.\<close>

lemma plain_days:
  assumes "time_of_day g = MORNING"
    and "0 < day_count g mod 28" and "day_count g mod 28 + int k < 28"
  shows "advance_time_n (4 * k) g = Inr (g\<lparr>day_count := day_count g + int k\<rparr>)"
  using assms
proof (induction k arbitrary: g)
  case 0
  then show ?case by simp
next
  case (Suc k)
  let ?g1 = "g\<lparr>day_count := day_count g + 1\<rparr>"
  have m: "(day_count g + 1) mod 28 = day_count g mod 28 + 1"
    using Suc.prems(2,3) by (intro mod28_step) simp_all
  have 1: "advance_time_n 4 g = Inr ?g1"
    using Suc.prems m by (intro day_plain) simp_all
  have 2: "advance_time_n (4 * k) ?g1 = Inr (?g1\<lparr>day_count := day_count ?g1 + int k\<rparr>)"
    using Suc.prems m by (intro Suc.IH) simp_all
  have 3: "?g1\<lparr>day_count := day_count ?g1 + int k\<rparr> = g\<lparr>day_count := day_count g + int (Suc k)\<rparr>"
    by simp
  have "advance_time_n (4 + 4 * k) g = Inr (g\<lparr>day_count := day_count g + int (Suc k)\<rparr>)"
    using advance_then [OF 1 2] unfolding 3 .
  then show ?case by simp
qed

text \<open>
  112 calls from the morning of a day with \<open>day_count mod 28 = 1\<close>: 26 plain days, the
  day that reaches the multiple of 28 and moves the season, and one more plain day.
\<close>

lemma season_cycle:
  assumes "time_of_day g = MORNING" and "day_count g mod 28 = 1"
    and "Season_get_next (season g) = Inr s"
  shows "advance_time_n 112 g =
     Inr (g\<lparr>day_count := day_count g + 28, season := s,
             year := (if s = SPRING then year g + 1 else year g)\<rparr>)"
proof -
  let ?g1 = "g\<lparr>day_count := day_count g + int 26\<rparr>"
  let ?g2 = "?g1\<lparr>day_count := day_count ?g1 + 1, season := s,
             year := (if s = SPRING then year ?g1 + 1 else year ?g1)\<rparr>"
  let ?g3 = "?g2\<lparr>day_count := day_count ?g2 + 1\<rparr>"
  have 1: "advance_time_n (4 * 26) g = Inr ?g1"
    using assms by (intro plain_days) simp_all
  have m1: "(day_count ?g1 + 1) mod 28 = 0"
    using mod28_shift [of "day_count g" 27] assms(2) by (simp add: add.commute)
  have m2: "(day_count ?g2 + 1) mod 28 \<noteq> 0"
    using mod28_shift [of "day_count g" 28] assms(2) by (simp add: add.commute)
  have 2: "advance_time_n 4 ?g1 = Inr ?g2"
    using assms(1,3) m1 by (intro day_turn) simp_all
  have 3: "advance_time_n 4 ?g2 = Inr ?g3"
    using assms(1) m2 by (intro day_plain) simp_all
  have 4: "?g3 = g\<lparr>day_count := day_count g + 28, season := s,
             year := (if s = SPRING then year g + 1 else year g)\<rparr>"
    by simp
  have "advance_time_n (4 * 26 + (4 + 4)) g = Inr ?g3"
    by (rule advance_then [OF 1 advance_then [OF 2 3]])
  then show ?thesis unfolding 4 by simp
qed

text \<open>
  C1, as the specification states it: from (morning, day 1, spring, year 1), 112 calls of
  \<open>advance_time\<close> yield spring of year 2. They do not: 112 calls are 28 days, which is one
  season, not one year. On a fresh game state the 112th call ends in the morning of day
  29, in summer of year 1.
\<close>

theorem C1_calendar_counterexample:
  "time_of_day (GameState_init ''2025-01-01T08:00:00'') = MORNING
   \<and> day_count (GameState_init ''2025-01-01T08:00:00'') = 1
   \<and> season (GameState_init ''2025-01-01T08:00:00'') = SPRING
   \<and> year (GameState_init ''2025-01-01T08:00:00'') = 1
   \<and> advance_time_n 112 (GameState_init ''2025-01-01T08:00:00'')
       = Inr ((GameState_init ''2025-01-01T08:00:00'')\<lparr>day_count := 29, season := SUMMER\<rparr>)
   \<and> season ((GameState_init ''2025-01-01T08:00:00'')\<lparr>day_count := 29, season := SUMMER\<rparr>)
       \<noteq> SPRING
   \<and> year ((GameState_init ''2025-01-01T08:00:00'')\<lparr>day_count := 29, season := SUMMER\<rparr>)
       \<noteq> 2"
  using season_cycle [of "GameState_init ''2025-01-01T08:00:00''" SUMMER]
  by (simp add: GameState_init_def season_next season_distinct)

text \<open>
  C1, amended: for a GameState with time_of_day = morning, day_count = 1, season = spring
  and year = 1, exactly 4 calls of \<open>advance_time\<close> yield morning of day 2 (and change
  nothing else); exactly 112 calls yield summer of year 1, in the morning of day 29; and
  exactly 448 calls (four seasons of 28 days of 4 calls) yield spring of year 2, in the
  morning of day 113.
\<close>

theorem C1_calendar:
  assumes "time_of_day g = MORNING" and "day_count g = 1"
    and "season g = SPRING" and "year g = 1"
  shows "advance_time_n 4 g = Inr (g\<lparr>day_count := 2\<rparr>)
    \<and> advance_time_n 112 g = Inr (g\<lparr>day_count := 29, season := SUMMER\<rparr>)
    \<and> advance_time_n 448 g = Inr (g\<lparr>day_count := 113, year := 2\<rparr>)"
proof -
  have a: "advance_time_n 4 g = Inr (g\<lparr>day_count := 2\<rparr>)"
    using day_plain [of g] assms by simp
  let ?g1 = "g\<lparr>day_count := 29, season := SUMMER\<rparr>"
  let ?g2 = "g\<lparr>day_count := 57, season := FALL\<rparr>"
  let ?g3 = "g\<lparr>day_count := 85, season := WINTER\<rparr>"
  let ?g4 = "g\<lparr>day_count := 113, year := 2\<rparr>"
  have 1: "advance_time_n 112 g = Inr ?g1"
    using season_cycle [of g SUMMER] assms by (simp add: season_next season_distinct)
  have 2: "advance_time_n 112 ?g1 = Inr ?g2"
    using season_cycle [of ?g1 FALL] assms by (simp add: season_next season_distinct)
  have 3: "advance_time_n 112 ?g2 = Inr ?g3"
    using season_cycle [of ?g2 WINTER] assms by (simp add: season_next season_distinct)
  have 4: "advance_time_n 112 ?g3 = Inr ?g4"
    using season_cycle [of ?g3 SPRING] assms by (simp add: season_next season_distinct)
  have "advance_time_n (112 + (112 + (112 + 112))) g = Inr ?g4"
    by (rule advance_then [OF 1 advance_then [OF 2 advance_then [OF 3 4]]])
  then have "advance_time_n 448 g = Inr ?g4" by simp
  with a 1 show ?thesis by simp
qed

theorem C1_calendar_witness:
  "time_of_day (GameState_init ''2025-01-01T08:00:00'') = MORNING
   \<and> day_count (GameState_init ''2025-01-01T08:00:00'') = 1
   \<and> season (GameState_init ''2025-01-01T08:00:00'') = SPRING
   \<and> year (GameState_init ''2025-01-01T08:00:00'') = 1
   \<and> advance_time_n 4 (GameState_init ''2025-01-01T08:00:00'')
       = Inr ((GameState_init ''2025-01-01T08:00:00'')\<lparr>day_count := 2\<rparr>)
   \<and> advance_time_n 112 (GameState_init ''2025-01-01T08:00:00'')
       = Inr ((GameState_init ''2025-01-01T08:00:00'')\<lparr>day_count := 29, season := SUMMER\<rparr>)
   \<and> advance_time_n 448 (GameState_init ''2025-01-01T08:00:00'')
       = Inr ((GameState_init ''2025-01-01T08:00:00'')\<lparr>day_count := 113, year := 2\<rparr>)"
  using C1_calendar [of "GameState_init ''2025-01-01T08:00:00''"]
  by (simp add: GameState_init_def)

text \<open>
  C9: \<open>TimeOfDay.get_next\<close> and \<open>Season.get_next\<close> return for every string; on a string
  that is none of their labels they return "morning" and "spring". So \<open>advance_time\<close>
  returns a state for every game state, whatever \<open>time_of_day\<close> and \<open>season\<close> hold, and
  so does any number of calls in a row.
\<close>

theorem C9_get_next_total:
  "(\<exists>t. TimeOfDay_get_next cur = Inr t)
   \<and> (cur \<notin> set TimeOfDay_get_all \<longrightarrow> TimeOfDay_get_next cur = Inr MORNING)
   \<and> (\<exists>s. Season_get_next cur = Inr s)
   \<and> (cur \<notin> set Season_get_all \<longrightarrow> Season_get_next cur = Inr SPRING)
   \<and> (\<exists>g'. advance_time g = Inr g')
   \<and> (\<exists>g'. advance_time_n n g = Inr g')"
  using TimeOfDay_get_next_total Season_get_next_total TimeOfDay_get_next_unknown
    Season_get_next_unknown advance_time_total advance_time_n_total
  by blast

theorem C9_get_next_total_witness:
  "''noon'' \<notin> set TimeOfDay_get_all \<and> ''noon'' \<notin> set Season_get_all
   \<and> TimeOfDay_get_next ''noon'' = Inr MORNING
   \<and> Season_get_next ''noon'' = Inr SPRING
   \<and> (\<exists>g'. advance_time ((GameState_init ''2025-01-01T08:00:00'')
               \<lparr>time_of_day := ''noon'', season := ''noon''\<rparr>) = Inr g')
   \<and> (\<exists>g'. advance_time_n 5 ((GameState_init ''2025-01-01T08:00:00'')
               \<lparr>time_of_day := ''noon'', season := ''noon''\<rparr>) = Inr g')"
  using C9_get_next_total [of "''noon''"
      "(GameState_init ''2025-01-01T08:00:00'')\<lparr>time_of_day := ''noon'', season := ''noon''\<rparr>" 5]
  by (simp add: label_defs)


subsection \<open>Dictionary operations\<close>

lemma dict_get_None: "dict_get d k = None \<longleftrightarrow> k \<notin> set (dict_keys d)"
  by (induction d k rule: dict_get.induct) (auto simp: dict_keys_def)

lemma dict_contains_keys: "dict_contains d k \<longleftrightarrow> k \<in> set (dict_keys d)"
  by (simp add: dict_contains_def dict_get_None)

lemma dict_get_mem: "dict_get d k = Some v \<Longrightarrow> (k, v) \<in> set d"
  by (induction d k rule: dict_get.induct) (auto split: if_splits)

lemma dict_get_wf: "dict_wf d \<Longrightarrow> (k, v) \<in> set d \<Longrightarrow> dict_get d k = Some v"
  by (induction d k rule: dict_get.induct) (auto simp: dict_wf_def dict_keys_def rev_image_eqI)

lemma dict_keys_set:
  "dict_keys (dict_set d k v) = (if k \<in> set (dict_keys d) then dict_keys d else dict_keys d @ [k])"
  by (induction d k v rule: dict_set.induct) (auto simp: dict_keys_def)

lemma dict_wf_set: "dict_wf d \<Longrightarrow> dict_wf (dict_set d k v)"
  by (simp add: dict_wf_def dict_keys_set)

lemma dict_get_set: "dict_get (dict_set d k v) k' = (if k' = k then Some v else dict_get d k')"
  by (induction d k v rule: dict_set.induct) auto

lemma dict_keys_del: "dict_keys (dict_del d k) = remove1 k (dict_keys d)"
  by (induction d k rule: dict_del.induct) (auto simp: dict_keys_def)

lemma dict_wf_del: "dict_wf d \<Longrightarrow> dict_wf (dict_del d k)"
  by (simp add: dict_wf_def dict_keys_del)

lemma dict_get_del:
  "dict_wf d \<Longrightarrow> dict_get (dict_del d k) k' = (if k' = k then None else dict_get d k')"
proof (induction d k rule: dict_del.induct)
  case (1 k)
  then show ?case by simp
next
  case (2 k1 v1 d k)
  have wf: "dict_wf d" and nk: "k1 \<notin> set (dict_keys d)"
    using "2.prems" by (simp_all add: dict_wf_def dict_keys_def)
  show ?case
  proof (cases "k1 = k")
    case True
    then show ?thesis using nk by (auto simp: dict_get_None)
  next
    case False
    then show ?thesis using "2.IH" wf by auto
  qed
qed

lemma dict_set_mem: "(k', v') \<in> set (dict_set d k v) \<Longrightarrow> (k', v') = (k, v) \<or> (k', v') \<in> set d"
  by (induction d k v rule: dict_set.induct) (auto split: if_splits)

lemma ids_set_new:
  "dict_get d k = None \<Longrightarrow>
   mset (concat (dict_values (dict_set d k v))) = mset (concat (dict_values d)) + mset v"
  by (induction d k v rule: dict_set.induct) (auto simp: dict_values_def split: if_splits)

lemma ids_set_old:
  "dict_get d k = Some old \<Longrightarrow>
   mset (concat (dict_values (dict_set d k v))) + mset old = mset (concat (dict_values d)) + mset v"
  by (induction d k v rule: dict_set.induct) (auto simp: dict_values_def split: if_splits)


lemma dict_set_twice: "dict_set (dict_set d k a) k b = dict_set d k b"
  by (induction d k a rule: dict_set.induct) auto

subsection \<open>The manager's indexes\<close>

lemma add_entity_new:
  assumes "\<not> dict_contains (entities m) (id' e)"
  shows "snd (add_entity m e) =
     m\<lparr>entities := dict_set (entities m) (id' e) e,
       entities_by_type :=
         dict_set (entities_by_type m) (entity_type e)
           (data_get (dict_get (entities_by_type m) (entity_type e)) [] @ [id' e])\<rparr>"
  using assms
  by (auto simp: add_entity_def Let_def dict_contains_def dict_get_set dict_set_twice data_get_def)

lemma add_entity_old: "dict_contains (entities m) (id' e) \<Longrightarrow> snd (add_entity m e) = m"
  by (simp add: add_entity_def)

lemma in_by_type:
  "(ty, ids) \<in> set bt \<Longrightarrow> i \<in> set ids \<Longrightarrow> i \<in> set (concat (dict_values bt))"
  by (force simp: dict_values_def)

lemma by_type_soundI:
  assumes "\<And>ty ids j. (ty, ids) \<in> set (entities_by_type m) \<Longrightarrow> j \<in> set ids
             \<Longrightarrow> \<exists>e. dict_get (entities m) j = Some e \<and> entity_type e = ty"
  shows "by_type_sound m"
  unfolding by_type_sound_def using assms by (fastforce split: option.splits)

lemma by_type_soundD:
  assumes "by_type_sound m" and "(ty, ids) \<in> set (entities_by_type m)" and "j \<in> set ids"
  shows "\<exists>e. dict_get (entities m) j = Some e \<and> entity_type e = ty"
  using assms unfolding by_type_sound_def by (fastforce split: option.splits)

lemma index_consistent_add:
  assumes inv: "index_consistent m"
  shows "index_consistent (snd (add_entity m e))"
proof (cases "dict_contains (entities m) (id' e)")
  case True
  then show ?thesis using inv by (simp add: add_entity_old)
next
  case False
  let ?i = "id' e" and ?ty = "entity_type e"
  let ?bt = "entities_by_type m"
  let ?old = "data_get (dict_get ?bt ?ty) []"
  let ?m' = "m\<lparr>entities := dict_set (entities m) ?i e,
                 entities_by_type := dict_set ?bt ?ty (?old @ [?i])\<rparr>"
  have new: "dict_get (entities m) ?i = None" and notin: "?i \<notin> set (dict_keys (entities m))"
    using False by (simp_all add: dict_contains_def dict_get_None)
  have wf: "dict_wf (entities m)" "dict_wf ?bt"
    and ms: "mset (concat (dict_values ?bt)) = mset (dict_keys (entities m))"
    and snd: "by_type_sound m"
    using inv by (simp_all add: index_consistent_def)
  have ms': "mset (concat (dict_values (dict_set ?bt ?ty (?old @ [?i]))))
      = mset (concat (dict_values ?bt)) + {#?i#}"
  proof (cases "dict_get ?bt ?ty")
    case None
    then show ?thesis by (simp add: ids_set_new data_get_def)
  next
    case (Some old)
    from ids_set_old [OF Some, of "old @ [?i]"] show ?thesis
      by (simp add: Some data_get_def)
  qed
  have sound': "by_type_sound ?m'"
  proof (rule by_type_soundI)
    fix ty ids j
    assume "(ty, ids) \<in> set (entities_by_type ?m')" and j: "j \<in> set ids"
    then have mem: "(ty, ids) \<in> set (dict_set ?bt ?ty (?old @ [?i]))" by simp
    from dict_set_mem [OF mem]
    have "(ty = ?ty \<and> ids = ?old @ [?i]) \<or> (ty, ids) \<in> set ?bt" by auto
    then have "(j = ?i \<and> ty = ?ty) \<or> (\<exists>ids'. (ty, ids') \<in> set ?bt \<and> j \<in> set ids')"
      using j by (auto simp: data_get_def split: option.splits dest: dict_get_mem)
    then show "\<exists>e. dict_get (entities ?m') j = Some e \<and> entity_type e = ty"
    proof
      assume "j = ?i \<and> ty = ?ty"
      then show ?thesis by (simp add: dict_get_set)
    next
      assume "\<exists>ids'. (ty, ids') \<in> set ?bt \<and> j \<in> set ids'"
      then obtain e' where e': "dict_get (entities m) j = Some e'" "entity_type e' = ty"
        using by_type_soundD [OF snd] by blast
      then have "j \<noteq> ?i" using new by auto
      then show ?thesis using e' by (simp add: dict_get_set)
    qed
  qed
  have "index_consistent ?m'"
    using wf ms ms' sound' notin
    by (simp add: index_consistent_def dict_wf_set dict_keys_set)
  then show ?thesis by (simp add: add_entity_new [OF False])
qed


lemma index_consistent_remove:
  assumes inv: "index_consistent m"
  shows "index_consistent (snd (remove_entity m eid))"
proof (cases "dict_get (entities m) eid")
  case None
  then show ?thesis using inv by (simp add: remove_entity_def)
next
  case (Some entity)
  let ?ty = "entity_type entity"
  let ?bt = "entities_by_type m"
  have wf: "dict_wf (entities m)" "dict_wf ?bt"
    and ms: "mset (concat (dict_values ?bt)) = mset (dict_keys (entities m))"
    and snd: "by_type_sound m"
    using inv by (simp_all add: index_consistent_def)
  have key: "eid \<in> set (dict_keys (entities m))"
    using Some dict_get_None [of "entities m" eid] by auto
  then have "eid \<in> set (concat (dict_values ?bt))"
    using ms by (metis set_mset_mset)
  then obtain ty ids where e: "(ty, ids) \<in> set ?bt" and i: "eid \<in> set ids"
    by (auto simp: dict_values_def)
  have "ty = ?ty"
    using snd e i Some by (fastforce simp: by_type_sound_def)
  then have get: "dict_get ?bt ?ty = Some ids"
    using dict_get_wf [OF wf(2) e] by simp
  let ?bt' = "dict_set ?bt ?ty (remove1 eid ids)"
  let ?m' = "m\<lparr>entities_by_type := ?bt', entities := dict_del (entities m) eid\<rparr>"
  have res: "snd (remove_entity m eid) = ?m'"
    by (simp add: remove_entity_def Some get i)
  have split: "mset ids = add_mset eid (mset (remove1 eid ids))"
    using i by simp
  have "mset (concat (dict_values ?bt')) + mset ids
      = mset (concat (dict_values ?bt)) + mset (remove1 eid ids)"
    by (rule ids_set_old [OF get])
  then have "add_mset eid (mset (concat (dict_values ?bt'))) + mset (remove1 eid ids)
      = mset (concat (dict_values ?bt)) + mset (remove1 eid ids)"
    unfolding split by simp
  then have "mset (concat (dict_values ?bt')) + {#eid#} = mset (concat (dict_values ?bt))"
    by simp
  then have ms': "mset (concat (dict_values ?bt')) = mset (dict_keys (entities m)) - {#eid#}"
    using ms by (metis add_diff_cancel_right')
  have "distinct (dict_keys (entities m))"
    using wf(1) by (simp add: dict_wf_def)
  then have "count (mset (dict_keys (entities m))) eid = 1"
    using key by (simp add: distinct_count_atmost_1)
  then have gone: "eid \<notin> set (concat (dict_values ?bt'))"
    using ms' by (metis count_diff count_single diff_self_eq_0 count_inI set_mset_mset zero_neq_one
        not_in_iff)
  have sound': "by_type_sound ?m'"
  proof (rule by_type_soundI)
    fix ty' ids' j
    assume "(ty', ids') \<in> set (entities_by_type ?m')" and j: "j \<in> set ids'"
    then have mem: "(ty', ids') \<in> set ?bt'" by simp
    have ne: "j \<noteq> eid"
      using gone in_by_type [OF mem j] by auto
    have "\<exists>ids''. (ty', ids'') \<in> set ?bt \<and> j \<in> set ids''"
      using dict_set_mem [OF mem] j dict_get_mem [OF get] set_remove1_subset [of eid ids]
      by blast
    then obtain e where "dict_get (entities m) j = Some e" and "entity_type e = ty'"
      using by_type_soundD [OF snd] by blast
    then show "\<exists>e. dict_get (entities ?m') j = Some e \<and> entity_type e = ty'"
      using ne by (simp add: dict_get_del [OF wf(1)])
  qed
  have "index_consistent ?m'"
    using wf ms' sound'
    by (simp add: index_consistent_def dict_wf_set dict_wf_del dict_keys_del mset_remove1)
  then show ?thesis by (simp add: res)
qed

lemma index_consistent_init: "index_consistent EntityManager_init"
  by (simp add: index_consistent_def EntityManager_init_def dict_wf_def dict_keys_def
      dict_values_def by_type_sound_def)

lemma index_consistent_clear: "index_consistent (clear m)"
  by (simp add: index_consistent_def clear_def dict_wf_def dict_keys_def
      dict_values_def by_type_sound_def)

lemma index_consistent_create:
  "index_consistent m \<Longrightarrow> index_consistent (fst (snd (create_entity next_id nm ty m)))"
  by (simp add: create_entity_def Entity_init_def index_consistent_add)

text \<open>
  C10: for every EntityManager reachable from the empty manager by \<open>create_entity\<close>,
  \<open>add_entity\<close>, \<open>remove_entity\<close> and \<open>clear\<close> calls, the ids listed in
  \<open>entities_by_type\<close>, over all types and counted with repetition, are exactly the keys of
  \<open>entities\<close>, each listed once, and each id stands under the \<open>entity_type\<close> of the
  entity it is the key of.
\<close>

theorem C10_index_consistent: "reachable m \<Longrightarrow> index_consistent m"
  by (induction rule: reachable.induct)
    (simp_all add: index_consistent_init index_consistent_create index_consistent_add
      index_consistent_remove index_consistent_clear)

theorem C10_index_consistent_witness:
  "reachable (snd (remove_entity (snd (add_entity
       (fst (snd (create_entity 1 ''Sarah'' ''Villager''
         (fst (snd (create_entity 1 ''Tom'' ''Villager'' EntityManager_init))))))
       (fst (Entity_init 7 ''Wheat'' ''Crop'')))) 1))
   \<and> index_consistent (snd (remove_entity (snd (add_entity
       (fst (snd (create_entity 1 ''Sarah'' ''Villager''
         (fst (snd (create_entity 1 ''Tom'' ''Villager'' EntityManager_init))))))
       (fst (Entity_init 7 ''Wheat'' ''Crop'')))) 1))
   \<and> snd (remove_entity (snd (add_entity
       (fst (snd (create_entity 1 ''Sarah'' ''Villager''
         (fst (snd (create_entity 1 ''Tom'' ''Villager'' EntityManager_init))))))
       (fst (Entity_init 7 ''Wheat'' ''Crop'')))) 1)
     = \<lparr>entities = [(7, fst (Entity_init 7 ''Wheat'' ''Crop''))],
        entities_by_type = [(''Villager'', []), (''Crop'', [7])]\<rparr>"
proof -
  let ?m = "snd (remove_entity (snd (add_entity
       (fst (snd (create_entity 1 ''Sarah'' ''Villager''
         (fst (snd (create_entity 1 ''Tom'' ''Villager'' EntityManager_init))))))
       (fst (Entity_init 7 ''Wheat'' ''Crop'')))) 1)"
  have r: "reachable ?m"
    by (intro reachable_remove reachable_add reachable_create reachable_init)
  have "?m = \<lparr>entities = [(7, fst (Entity_init 7 ''Wheat'' ''Crop''))],
        entities_by_type = [(''Villager'', []), (''Crop'', [7])]\<rparr>"
    by (simp add: remove_entity_def add_entity_def create_entity_def Entity_init_def
        EntityManager_init_def dict_contains_def data_get_def)
  with r C10_index_consistent [OF r] show ?thesis by simp
qed

subsection \<open>Capability queries\<close>

lemma has_components_iff:
  "has_components e cts \<longleftrightarrow> set cts \<subseteq> set (dict_keys (components e))"
  by (induction cts) (auto simp: dict_contains_keys)

lemma query_loop_filter:
  "query_loop req acc es = acc @ filter (\<lambda>e. active e \<and> has_components e req) es"
  by (induction es arbitrary: acc) auto

text \<open>
  C6: \<open>query_entities\<close> returns exactly the entities of the manager that are active and
  have every requested component type, in the manager's order. So an active entity with
  Position, Health and Inventory is returned for \<open>{Position}\<close>, \<open>{Position, Health}\<close> and
  \<open>{Position, Health, Inventory}\<close>, for no query that names a type it lacks, and an
  inactive entity is returned for no query.
\<close>

theorem C6_query_entities:
  "query_entities m req
     = filter (\<lambda>e. active e \<and> set req \<subseteq> set (dict_keys (components e))) (get_all_entities m)
   \<and> (e \<in> set (query_entities m req) \<longleftrightarrow>
        e \<in> set (get_all_entities m) \<and> active e \<and> (\<forall>ct \<in> set req. has_component e ct))"
  by (auto simp: query_entities_def query_loop_filter has_components_iff get_all_entities_def
      has_component_def dict_contains_keys)

lemma hero_eq:
  "hero = \<lparr>id' = 1, name = ''Hero'', entity_type = ''Player'',
      components =
        [(POSITION, PositionC \<lparr>entity_id = Some 1, location = ''Unknown'', pos_x = 0, pos_y = 0\<rparr>),
         (HEALTH, HealthC \<lparr>entity_id = Some 1, current = 100, maximum = 100\<rparr>),
         (INVENTORY, InventoryC \<lparr>entity_id = Some 1, items = [], capacity = 20\<rparr>)],
      active = True\<rparr>"
  by (simp add: hero_def add_component_def Entity_init_def dict_contains_def
      PositionComponent_from_dict_def HealthComponent_init_def InventoryComponent_from_dict_def
      empty_data_def data_get_def)

lemma village_eq: "village = \<lparr>entities = [(1, hero), (2, ghost)], entities_by_type = [(''Player'', [1, 2])]\<rparr>"
  by (simp add: village_def add_entity_def EntityManager_init_def dict_contains_def data_get_def
      ghost_def hero_eq)

theorem C6_query_entities_witness:
  "get_all_entities village = [hero, ghost]
   \<and> active hero \<and> dict_keys (components hero) = [POSITION, HEALTH, INVENTORY]
   \<and> \<not> active ghost \<and> dict_keys (components ghost) = [POSITION, HEALTH, INVENTORY]
   \<and> query_entities village [POSITION] = [hero]
   \<and> query_entities village [POSITION, HEALTH] = [hero]
   \<and> query_entities village [POSITION, HEALTH, INVENTORY] = [hero]
   \<and> query_entities village [POSITION, NEEDS] = []
   \<and> query_entities village [CURRENCY] = []
   \<and> ghost \<notin> set (query_entities village [POSITION, HEALTH, INVENTORY])"
  using C6_query_entities [of village "[POSITION]" hero]
    C6_query_entities [of village "[POSITION, HEALTH]" hero]
    C6_query_entities [of village "[POSITION, HEALTH, INVENTORY]" ghost]
    C6_query_entities [of village "[POSITION, NEEDS]" hero]
    C6_query_entities [of village "[CURRENCY]" hero]
  by (simp add: village_eq get_all_entities_def dict_values_def dict_keys_def ghost_def hero_eq)


subsection \<open>Loading entities\<close>

lemma registry_tags:
  "dict_keys COMPONENT_REGISTRY =
     map ComponentType_value
       [POSITION, HEALTH, INVENTORY, CURRENCY, RELATIONSHIP, NEEDS, SCHEDULE, OCCUPATION, MEMORY, GOAL]"
  by (simp add: COMPONENT_REGISTRY_def dict_keys_def)

lemma create_unknown: "\<not> known_tag cd \<Longrightarrow> create_component_from_dict cd = Inr None"
  by (auto simp: known_tag_def create_component_from_dict_def dict_contains_def split: option.splits)

lemma create_known: "known_tag cd \<Longrightarrow> create_component_from_dict cd \<noteq> Inr None"
  by (auto simp: known_tag_def create_component_from_dict_def dict_contains_def
      split: option.splits sum.splits)

lemma create_Some_known: "create_component_from_dict cd = Inr (Some c) \<Longrightarrow> known_tag cd"
  using create_unknown by fastforce

lemma ComponentType_value_inj: "ComponentType_value a = ComponentType_value b \<Longrightarrow> a = b"
  by (cases a; cases b; simp)


lemma registry_type:
  "dict_get COMPONENT_REGISTRY tag = Some from_dict \<Longrightarrow> from_dict cd = Inr c \<Longrightarrow>
     tag = ComponentType_value (component_type c)"
  unfolding COMPONENT_REGISTRY_def dict_get.simps
  by (simp split: if_splits) (clarsimp split: sum.splits)+

lemma create_Some_type:
  assumes "create_component_from_dict cd = Inr (Some c)"
  shows "d_type cd = Some (ComponentType_value (component_type c))"
proof -
  from assms obtain tag where tag: "d_type cd = Some tag"
    by (cases "d_type cd") (simp_all add: create_component_from_dict_def)
  from assms tag obtain from_dict where f: "dict_get COMPONENT_REGISTRY tag = Some from_dict"
    by (cases "dict_get COMPONENT_REGISTRY tag") (simp_all add: create_component_from_dict_def)
  from assms tag f have "from_dict cd = Inr c"
    by (cases "from_dict cd") (simp_all add: create_component_from_dict_def)
  from registry_type [OF f this] tag show ?thesis by simp
qed

lemma restore_components_append:
  "restore_components e (xs @ ys) =
     (case restore_components e xs of Inl err \<Rightarrow> Inl err | Inr e1 \<Rightarrow> restore_components e1 ys)"
  by (induction xs arbitrary: e) (auto split: sum.splits option.splits)

lemma restore_components_filter:
  "restore_components e (filter known_tag cds) = restore_components e cds"
proof (induction cds arbitrary: e)
  case Nil
  show ?case by simp
next
  case (Cons cd cds)
  show ?case
  proof (cases "known_tag cd")
    case True
    then show ?thesis using Cons by (simp split: sum.splits option.splits)
  next
    case False
    then show ?thesis using Cons by (simp add: create_unknown)
  qed
qed


lemma add_component_id: "id' (snd (add_component e c)) = id' e"
  by (simp add: add_component_def)

lemma restore_components_id: "restore_components e cds = Inr e' \<Longrightarrow> id' e' = id' e"
  by (induction cds arbitrary: e)
     (auto simp: add_component_id split: sum.splits option.splits)

lemma add_component_keep:
  "dict_get (components e) ct = Some c \<Longrightarrow> dict_get (components (snd (add_component e c'))) ct = Some c"
  by (auto simp: add_component_def dict_get_set dict_contains_def)

lemma restore_components_keep:
  "restore_components e cds = Inr e' \<Longrightarrow> dict_get (components e) ct = Some c
     \<Longrightarrow> dict_get (components e') ct = Some c"
  by (induction cds arbitrary: e)
     (auto simp: add_component_keep split: sum.splits option.splits)

lemma add_component_mem:
  "(ct, c') \<in> set (components (snd (add_component e c))) \<Longrightarrow>
     (ct, c') \<in> set (components e)
     \<or> (ct = component_type c \<and> c' = set_entity_id c (Some (id' e)))"
  by (auto simp: add_component_def dest: dict_set_mem split: if_splits)

lemma restore_components_origin:
  assumes "restore_components e cds = Inr e'" and "(ct, c') \<in> set (components e')"
  shows "(ct, c') \<in> set (components e)
     \<or> (\<exists>cd \<in> set cds. \<exists>c. create_component_from_dict cd = Inr (Some c)
            \<and> ct = component_type c \<and> c' = set_entity_id c (Some (id' e)))"
  using assms
proof (induction cds arbitrary: e)
  case Nil
  then show ?case by simp
next
  case (Cons cd cds)
  show ?case
  proof (cases "create_component_from_dict cd")
    case (Inl err)
    then show ?thesis using Cons.prems by simp
  next
    case (Inr r)
    show ?thesis
    proof (cases r)
      case None
      then show ?thesis using Cons.IH [of e] Cons.prems Inr by auto
    next
      case (Some c)
      let ?e1 = "snd (add_component e c)"
      have "restore_components ?e1 cds = Inr e'"
        using Cons.prems Inr Some by simp
      from Cons.IH [OF this Cons.prems(2)]
      show ?thesis
        using Inr Some add_component_mem [of ct c' e c] by (auto simp: add_component_id)
    qed
  qed
qed

lemma add_component_first:
  "\<not> dict_contains (components e) (component_type c) \<Longrightarrow>
     dict_get (components (snd (add_component e c))) (component_type c)
       = Some (set_entity_id c (Some (id' e)))"
  by (simp add: add_component_def dict_get_set)

lemma restore_components_first:
  assumes "restore_components e (cd # rest) = Inr e'"
    and "create_component_from_dict cd = Inr (Some c)"
    and "\<not> dict_contains (components e) (component_type c)"
  shows "dict_get (components e') (component_type c) = Some (set_entity_id c (Some (id' e)))"
proof -
  have "restore_components (snd (add_component e c)) rest = Inr e'"
    using assms(1,2) by simp
  from restore_components_keep [OF this add_component_first [OF assms(3)]]
  show ?thesis .
qed

lemma restore_components_ok:
  assumes "\<forall>cd \<in> set cds. \<forall>err. create_component_from_dict cd \<noteq> Inl err"
  shows "\<exists>e'. restore_components e cds = Inr e'"
  using assms
  by (induction cds arbitrary: e) (auto split: sum.splits option.splits)

text \<open>The record at position \<open>i\<close>, when no earlier record has its tag.\<close>

lemma restore_components_nth:
  assumes r: "restore_components e cds = Inr e'" and e: "components e = []"
    and i: "i < length cds" and k: "known_tag (cds ! i)"
    and first: "\<forall>j < i. d_type (cds ! j) \<noteq> d_type (cds ! i)"
  shows "\<exists>c. create_component_from_dict (cds ! i) = Inr (Some c)
            \<and> dict_get (components e') (component_type c) = Some (set_entity_id c (Some (id' e)))"
proof -
  let ?xs = "take i cds" and ?cd = "cds ! i" and ?ys = "drop (Suc i) cds"
  have split: "cds = ?xs @ ?cd # ?ys"
    using i by (simp add: id_take_nth_drop)
  from r obtain e1 where e1: "restore_components e ?xs = Inr e1"
    and rest: "restore_components e1 (?cd # ?ys) = Inr e'"
    using restore_components_append [of e ?xs "?cd # ?ys"] split
    by (cases "restore_components e ?xs") auto
  from rest obtain c where c: "create_component_from_dict ?cd = Inr (Some c)"
    using create_known [OF k]
    by (cases "create_component_from_dict ?cd") (auto split: option.splits)
  have "\<not> dict_contains (components e1) (component_type c)"
  proof
    assume "dict_contains (components e1) (component_type c)"
    then obtain c' where "(component_type c, c') \<in> set (components e1)"
      by (auto simp: dict_contains_def dest: dict_get_mem)
    from restore_components_origin [OF e1 this] e
    obtain x c2 where x: "x \<in> set ?xs" and c2: "create_component_from_dict x = Inr (Some c2)"
      and ty: "component_type c = component_type c2"
      by auto
    from x obtain j where j: "j < i" and xj: "x = cds ! j"
      using i by (auto simp: in_set_conv_nth)
    have "d_type x = d_type ?cd"
      using create_Some_type [OF c] create_Some_type [OF c2] ty by simp
    with first j xj show False by simp
  qed
  from restore_components_first [OF rest c this] restore_components_id [OF e1] c
  show ?thesis by auto
qed


lemma Entity_from_dict_eq:
  "Entity_from_dict n d =
     (restore_components
        \<lparr>id' = data_get (e_id d) n, name = data_get (e_name d) ''Unnamed Entity'',
         entity_type = data_get (e_entity_type d) ''Generic'', components = [],
         active = data_get (e_active d) True\<rparr>
        (data_get (e_components d) []),
      n + 1)"
  by (simp add: Entity_from_dict_def Entity_init_def)

lemma saved_hero_loads: "Entity_from_dict 1 saved_hero = (Inr restored_hero, 2)"
  by (simp add: Entity_from_dict_eq saved_hero_def restored_hero_def empty_data_def data_get_def
      create_component_from_dict_def COMPONENT_REGISTRY_def add_component_def dict_contains_def
      HealthComponent_from_dict_def HealthComponent_init_def CurrencyComponent_from_dict_def
      CurrencyComponent_init_def)

text \<open>
  C7: in \<open>Entity.from_dict\<close>, a component record whose tag is not in the registry (or
  that has no tag) makes \<open>create_component_from_dict\<close> return \<open>None\<close> without an error,
  and the load is the load of the record list without such records: same entity, same
  outcome. The entity is constructed whenever no known record fails to deserialize. In the
  entity that results, every known record whose tag no earlier record has is restored
  under its component type, owned by the entity (a second record of a tag is rejected
  by \<open>add_component\<close>), and every component comes from a known record.
\<close>

theorem C7_unknown_tags_skipped:
  "(\<not> known_tag cd \<longrightarrow> create_component_from_dict cd = Inr None)
   \<and> Entity_from_dict n d =
       Entity_from_dict n (d\<lparr>e_components := Some (filter known_tag (data_get (e_components d) []))\<rparr>)
   \<and> ((\<forall>cd \<in> set (data_get (e_components d) []).
          known_tag cd \<longrightarrow> (\<forall>err. create_component_from_dict cd \<noteq> Inl err))
        \<longrightarrow> (\<exists>e. Entity_from_dict n d = (Inr e, n + 1)))
   \<and> (Entity_from_dict n d = (Inr e, n') \<longrightarrow>
        (i < length (data_get (e_components d) [])
           \<and> known_tag (data_get (e_components d) [] ! i)
           \<and> (\<forall>j < i. d_type (data_get (e_components d) [] ! j)
                        \<noteq> d_type (data_get (e_components d) [] ! i))
         \<longrightarrow> (\<exists>c. create_component_from_dict (data_get (e_components d) [] ! i) = Inr (Some c)
                 \<and> get_component e (component_type c) = Some (set_entity_id c (Some (id' e)))))
        \<and> (\<forall>(ct, c') \<in> set (components e).
              \<exists>cd \<in> set (data_get (e_components d) []).
                known_tag cd
                \<and> (\<exists>c. create_component_from_dict cd = Inr (Some c)
                        \<and> ct = component_type c \<and> c' = set_entity_id c (Some (id' e)))))"
proof (intro conjI impI)
  assume "\<not> known_tag cd"
  then show "create_component_from_dict cd = Inr None" by (rule create_unknown)
next
  show "Entity_from_dict n d =
       Entity_from_dict n (d\<lparr>e_components := Some (filter known_tag (data_get (e_components d) []))\<rparr>)"
    by (simp add: Entity_from_dict_eq restore_components_filter data_get_def)
next
  assume "\<forall>cd \<in> set (data_get (e_components d) []).
          known_tag cd \<longrightarrow> (\<forall>err. create_component_from_dict cd \<noteq> Inl err)"
  then have "\<forall>cd \<in> set (data_get (e_components d) []). \<forall>err. create_component_from_dict cd \<noteq> Inl err"
    using create_unknown by fastforce
  from restore_components_ok [OF this]
  show "\<exists>e. Entity_from_dict n d = (Inr e, n + 1)"
    by (simp add: Entity_from_dict_eq)
next
  assume r: "Entity_from_dict n d = (Inr e, n')"
    and i: "i < length (data_get (e_components d) [])
           \<and> known_tag (data_get (e_components d) [] ! i)
           \<and> (\<forall>j < i. d_type (data_get (e_components d) [] ! j)
                        \<noteq> d_type (data_get (e_components d) [] ! i))"
  from r have r': "restore_components
        \<lparr>id' = data_get (e_id d) n, name = data_get (e_name d) ''Unnamed Entity'',
         entity_type = data_get (e_entity_type d) ''Generic'', components = [],
         active = data_get (e_active d) True\<rparr>
        (data_get (e_components d) []) = Inr e"
    by (simp add: Entity_from_dict_eq)
  from restore_components_nth [OF r' _ _ _ _, of i] i restore_components_id [OF r']
  show "\<exists>c. create_component_from_dict (data_get (e_components d) [] ! i) = Inr (Some c)
            \<and> get_component e (component_type c) = Some (set_entity_id c (Some (id' e)))"
    by (simp add: get_component_def)
next
  assume r: "Entity_from_dict n d = (Inr e, n')"
  from r have r': "restore_components
        \<lparr>id' = data_get (e_id d) n, name = data_get (e_name d) ''Unnamed Entity'',
         entity_type = data_get (e_entity_type d) ''Generic'', components = [],
         active = data_get (e_active d) True\<rparr>
        (data_get (e_components d) []) = Inr e"
    by (simp add: Entity_from_dict_eq)
  show "\<forall>(ct, c') \<in> set (components e).
              \<exists>cd \<in> set (data_get (e_components d) []).
                known_tag cd
                \<and> (\<exists>c. create_component_from_dict cd = Inr (Some c)
                        \<and> ct = component_type c \<and> c' = set_entity_id c (Some (id' e)))"
  proof (clarify)
    fix ct c'
    assume "(ct, c') \<in> set (components e)"
    from restore_components_origin [OF r' this] restore_components_id [OF r']
    show "\<exists>cd \<in> set (data_get (e_components d) []).
                known_tag cd
                \<and> (\<exists>c. create_component_from_dict cd = Inr (Some c)
                        \<and> ct = component_type c \<and> c' = set_entity_id c (Some (id' e)))"
      using create_Some_known by fastforce
  qed
qed

theorem C7_unknown_tags_skipped_witness:
  "\<not> known_tag (empty_data\<lparr>d_type := Some ''physics'', d_entity_id := Some 5, d_amount := Some 3\<rparr>)
   \<and> create_component_from_dict
         (empty_data\<lparr>d_type := Some ''physics'', d_entity_id := Some 5, d_amount := Some 3\<rparr>)
       = Inr None
   \<and> Entity_from_dict 1 saved_hero = (Inr restored_hero, 2)
   \<and> Entity_from_dict 1
         (saved_hero\<lparr>e_components := Some
            [empty_data\<lparr>d_type := Some ''health'', d_entity_id := Some 5, d_current := Some 80\<rparr>,
             empty_data\<lparr>d_type := Some ''currency'', d_entity_id := Some 5, d_amount := Some 100\<rparr>]\<rparr>)
       = (Inr restored_hero, 2)
   \<and> dict_keys (components restored_hero) = [HEALTH, CURRENCY]
   \<and> known_tag (data_get (e_components saved_hero) [] ! 4)
   \<and> get_component restored_hero CURRENCY
       = Some (CurrencyC \<lparr>entity_id = Some 5, amount = 100\<rparr>)"
proof -
  let ?physics = "empty_data\<lparr>d_type := Some ''physics'', d_entity_id := Some 5, d_amount := Some 3\<rparr>"
  have tags: "\<not> known_tag ?physics" "known_tag (data_get (e_components saved_hero) [] ! 4)"
    "filter known_tag (data_get (e_components saved_hero) []) =
       [empty_data\<lparr>d_type := Some ''health'', d_entity_id := Some 5, d_current := Some 80\<rparr>,
        empty_data\<lparr>d_type := Some ''currency'', d_entity_id := Some 5, d_amount := Some 100\<rparr>]"
    by (simp_all add: known_tag_def saved_hero_def empty_data_def data_get_def
        dict_contains_def COMPONENT_REGISTRY_def)
  show ?thesis
    using C7_unknown_tags_skipped [of ?physics 1 saved_hero restored_hero 2 4]
      saved_hero_loads tags
    by (simp add: restored_hero_def dict_keys_def get_component_def CurrencyComponent_from_dict_def
        CurrencyComponent_init_def)
qed

lemma Entity_from_dict_counter: "snd (Entity_from_dict n d) = n + 1"
  by (simp add: Entity_from_dict_def Entity_init_def Let_def)

lemma Entity_from_dict_id:
  "Entity_from_dict n d = (Inr e, n') \<Longrightarrow> n' = n + 1 \<and> id' e = data_get (e_id d) n"
  by (auto simp: Entity_from_dict_def Entity_init_def Let_def dest: restore_components_id)

lemma add_entity_keys:
  "set (dict_keys (entities (snd (add_entity m e)))) \<subseteq> insert (id' e) (set (dict_keys (entities m)))"
  by (auto simp: add_entity_def Let_def dict_keys_set)

lemma load_entities_bound:
  assumes "load_entities m0 n0 ds = (Inr m, n')"
  shows "n0 \<le> n'
    \<and> (\<forall>d \<in> set ds. \<forall>i. e_id d = Some i \<longrightarrow> i < n')
    \<and> (\<forall>k \<in> set (dict_keys (entities m)). k \<in> set (dict_keys (entities m0)) \<or> k < n')"
  using assms
proof (induction ds arbitrary: m0 n0)
  case Nil
  then show ?case by simp
next
  case (Cons d ds)
  obtain r n1 where fd: "Entity_from_dict n0 d = (r, n1)" by (cases "Entity_from_dict n0 d")
  with Cons.prems obtain e where r: "r = Inr e"
    by (cases r) auto
  let ?m1 = "snd (add_entity m0 e)"
  let ?n2 = "if id' e \<ge> n1 then id' e + 1 else n1"
  have rest: "load_entities ?m1 ?n2 ds = (Inr m, n')"
    using Cons.prems fd r by simp
  note ih = Cons.IH [OF rest]
  have n1: "n1 = n0 + 1" and ide: "id' e = data_get (e_id d) n0"
    using Entity_from_dict_id [of n0 d e n1] fd r by simp_all
  have lt: "id' e < ?n2" "n0 < ?n2" using n1 by auto
  have "\<forall>i. e_id d = Some i \<longrightarrow> i < n'"
    using ide lt ih by (auto simp: data_get_def)
  moreover have "\<forall>k \<in> set (dict_keys (entities m)). k \<in> set (dict_keys (entities m0)) \<or> k < n'"
    using ih add_entity_keys [of m0 e] lt by fastforce
  ultimately show ?case using ih lt by auto
qed

text \<open>
  \<open>_next_id\<close> never goes down: every function that writes it returns a value that is
  not below the one it was given.
\<close>

lemma next_id_monotone:
  "n < snd (Entity_init n nm ty)"
  "n < snd (snd (create_entity n nm ty m))"
  "n < snd (Entity_from_dict n d)"
  by (simp_all add: Entity_init_def create_entity_def Entity_from_dict_counter)

lemma load_entities_monotone: "n \<le> snd (load_entities m n ds)"
proof (induction ds arbitrary: m n)
  case Nil
  show ?case by simp
next
  case (Cons d ds)
  obtain r n1 where fd: "Entity_from_dict n d = (r, n1)"
    by (cases "Entity_from_dict n d")
  then have n1: "n1 = n + 1"
    using Entity_from_dict_counter [of n d] by simp
  show ?case
  proof (cases r)
    case (Inl err)
    then show ?thesis using fd n1 by simp
  next
    case (Inr e)
    let ?n2 = "if id' e \<ge> n1 then id' e + 1 else n1"
    have "?n2 \<le> snd (load_entities (snd (add_entity m e)) ?n2 ds)"
      by (rule Cons.IH)
    then show ?thesis using fd Inr n1 by (simp split: if_splits)
  qed
qed

text \<open>
  C3: when \<open>EntityManager.from_dict\<close> has returned, every entity that \<open>create_entity\<close>
  makes from then on (at a value of \<open>_next_id\<close> that is not below the one the load left,
  and \<open>_next_id\<close> never goes down) gets an id strictly greater than every id in the
  loaded records and than every key of the loaded manager, and leaves \<open>_next_id\<close> above
  its own id.
\<close>

theorem C3_id_continuity:
  assumes "EntityManager_from_dict next_id data = (Inr m, next_id')"
    and "next_id' \<le> c"
  shows "(\<forall>d \<in> set (data_get (entities_data data) []). \<forall>i. e_id d = Some i
            \<longrightarrow> i < id' (fst (create_entity c nm ty m2)))
       \<and> (\<forall>k \<in> set (dict_keys (entities m)). k < id' (fst (create_entity c nm ty m2)))
       \<and> id' (fst (create_entity c nm ty m2)) < snd (snd (create_entity c nm ty m2))"
  using load_entities_bound [OF assms(1) [unfolded EntityManager_from_dict_def]] assms(2)
  by (fastforce simp: create_entity_def Entity_init_def EntityManager_init_def dict_keys_def)

lemma wheat_loads:
  "Entity_from_dict 6
     \<lparr>e_id = None, e_name = Some ''Wheat'', e_entity_type = Some ''Crop'',
      e_active = None, e_components = None\<rparr>
   = (Inr \<lparr>id' = 6, name = ''Wheat'', entity_type = ''Crop'', components = [], active = True\<rparr>,
      7)"
  by (simp add: Entity_from_dict_eq data_get_def)

lemma saved_world_loads: "EntityManager_from_dict 1 saved_world = (Inr loaded_world, 7)"
  by (simp add: EntityManager_from_dict_def saved_world_def loaded_world_def saved_hero_loads
      wheat_loads add_entity_def EntityManager_init_def dict_contains_def data_get_def
      restored_hero_def)

theorem C3_id_continuity_witness:
  "EntityManager_from_dict 1 saved_world = (Inr loaded_world, 7)
   \<and> (7::int) \<le> 7
   \<and> e_id saved_hero = Some 5
   \<and> dict_keys (entities loaded_world) = [5, 6]
   \<and> id' (fst (create_entity 7 ''Corn'' ''Crop'' loaded_world)) = 7
   \<and> 5 < id' (fst (create_entity 7 ''Corn'' ''Crop'' loaded_world))
   \<and> 6 < id' (fst (create_entity 7 ''Corn'' ''Crop'' loaded_world))
   \<and> snd (snd (create_entity 7 ''Corn'' ''Crop'' loaded_world)) = 8"
  using C3_id_continuity [of 1 saved_world loaded_world 7 7 "''Corn''" "''Crop''" loaded_world]
    saved_world_loads
  by (simp add: create_entity_def Entity_init_def loaded_world_def dict_keys_def saved_hero_def)


subsection \<open>Relationships through a save file\<close>

lemma digit_val_digit_char: "d < 10 \<Longrightarrow> digit_val (digit_char d) = Some d"
proof -
  assume "d < 10"
  then have "d \<in> {0, 1, 2, 3, 4, 5, 6, 7, 8, 9}" by auto
  then show ?thesis
    by (auto simp: digit_val_def digit_char_def)
qed

lemma digit_char_plain:
  "d < 10 \<Longrightarrow> digit_char d \<noteq> CHR ''_'' \<and> digit_char d \<noteq> CHR ''-''
     \<and> digit_char d \<noteq> CHR ''+'' \<and> \<not> is_space (digit_char d)"
proof -
  assume "d < 10"
  then have "d \<in> {0, 1, 2, 3, 4, 5, 6, 7, 8, 9}" by auto
  then show ?thesis
    by (auto simp: digit_char_def is_space_def)
qed

lemma is_digit_iff: "is_digit c \<longleftrightarrow> (\<exists>d < 10. c = digit_char d)"
proof
  assume "is_digit c"
  then have "c = digit_char 0 \<or> c = digit_char 1 \<or> c = digit_char 2 \<or> c = digit_char 3
      \<or> c = digit_char 4 \<or> c = digit_char 5 \<or> c = digit_char 6 \<or> c = digit_char 7
      \<or> c = digit_char 8 \<or> c = digit_char 9"
    by (simp add: is_digit_def digit_char_def)
  then show "\<exists>d < 10. c = digit_char d"
    by (metis eval_nat_numeral(3) less_Suc_eq numeral_eq_Suc zero_less_Suc
        one_less_numeral_iff semiring_norm(76) numeral_less_iff semiring_norm(77,78,79,80,81))
next
  assume "\<exists>d < 10. c = digit_char d"
  then obtain d where "d < 10" and c: "c = digit_char d" by blast
  then have "d \<in> {0, 1, 2, 3, 4, 5, 6, 7, 8, 9}" by auto
  then show "is_digit c"
    unfolding c by (auto simp: is_digit_def digit_char_def)
qed

lemma str_nat_digits: "list_all is_digit (str_nat n)"
proof (induction n rule: str_nat.induct)
  case (1 n)
  show ?case
  proof (cases "n < 10")
    case True
    then show ?thesis by (subst str_nat.simps) (auto simp: is_digit_iff)
  next
    case False
    then have "list_all is_digit (str_nat (n div 10))" using 1 by simp
    moreover have "is_digit (digit_char (n mod 10))"
      unfolding is_digit_iff by (rule exI [of _ "n mod 10"]) simp
    ultimately show ?thesis using False by (subst str_nat.simps) simp
  qed
qed

lemma str_nat_nonempty: "str_nat n \<noteq> []"
  by (subst str_nat.simps) simp

lemma parse_digits_append:
  "list_all is_digit s \<Longrightarrow>
     parse_digits acc (s @ t) =
       (case parse_digits acc s of Inl e \<Rightarrow> Inl e | Inr a \<Rightarrow> parse_digits a t)"
proof (induction s arbitrary: acc)
  case Nil
  show ?case by simp
next
  case (Cons c s)
  then obtain d where d: "d < 10" "c = digit_char d" by (auto simp: is_digit_iff)
  then show ?case
    using Cons digit_char_plain [of d] by (simp add: digit_val_digit_char)
qed

lemma parse_nat_snoc:
  assumes "list_all is_digit s" and "s \<noteq> []" and "d < 10"
  shows "parse_nat (s @ [digit_char d]) =
     (case parse_nat s of Inl e \<Rightarrow> Inl e | Inr a \<Rightarrow> Inr (a * 10 + d))"
proof -
  from assms obtain c cs where s: "s = c # cs" by (cases s) auto
  with assms obtain d0 where d0: "d0 < 10" "c = digit_char d0" and cs: "list_all is_digit cs"
    by (auto simp: is_digit_iff)
  show ?thesis
    using d0 digit_char_plain [of d] assms(3)
    by (simp add: s parse_nat_def digit_val_digit_char parse_digits_append [OF cs]
        split: sum.splits)
qed

lemma parse_nat_str_nat: "parse_nat (str_nat n) = Inr n"
proof (induction n rule: str_nat.induct)
  case (1 n)
  show ?case
  proof (cases "n < 10")
    case True
    then show ?thesis
      by (subst str_nat.simps) (simp add: parse_nat_def digit_val_digit_char)
  next
    case False
    then have ih: "parse_nat (str_nat (n div 10)) = Inr (n div 10)" using 1 by simp
    have "parse_nat (str_nat (n div 10) @ [digit_char (n mod 10)]) = Inr (n div 10 * 10 + n mod 10)"
      by (simp add: parse_nat_snoc [OF str_nat_digits str_nat_nonempty] ih)
    then show ?thesis using False by (subst str_nat.simps) simp
  qed
qed

lemma strip_plain:
  assumes "s \<noteq> []" and "\<not> is_space (hd s)" and "\<not> is_space (last s)"
  shows "strip s = s"
proof -
  have 1: "dropWhile is_space s = s"
    using assms(1,2) by (cases s) auto
  have "rev s \<noteq> []" "\<not> is_space (hd (rev s))"
    using assms(1,3) by (simp_all add: hd_rev)
  then have "dropWhile is_space (rev s) = rev s"
    by (cases "rev s") auto
  then show ?thesis by (simp add: strip_def 1)
qed

lemma is_digit_plain:
  "is_digit c \<Longrightarrow> c \<noteq> CHR ''-'' \<and> c \<noteq> CHR ''+'' \<and> \<not> is_space c"
  using digit_char_plain by (auto simp: is_digit_iff)

lemma str_nat_ends: "is_digit (hd (str_nat n)) \<and> is_digit (last (str_nat n))"
  using str_nat_digits [of n] str_nat_nonempty [of n]
  by (cases "str_nat n") (auto simp: list_all_iff)

lemma int_of_str_py_str: "int_of_str (py_str i) = Inr i"
proof (cases "i < 0")
  case True
  let ?s = "CHR ''-'' # str_nat (nat (- i))"
  have "strip ?s = ?s"
    using str_nat_ends [of "nat (- i)"] str_nat_nonempty [of "nat (- i)"] is_digit_plain
    by (intro strip_plain) (auto simp: is_space_def)
  then show ?thesis using True
    by (simp add: int_of_str_def py_str_def parse_nat_str_nat)
next
  case False
  let ?s = "str_nat (nat i)"
  obtain c cs where s: "?s = c # cs"
    using str_nat_nonempty [of "nat i"] by (cases ?s) auto
  have c: "c \<noteq> CHR ''-''" "c \<noteq> CHR ''+''"
    using str_nat_ends [of "nat i"] is_digit_plain [of c] s by auto
  have "strip ?s = ?s"
    using str_nat_ends [of "nat i"] str_nat_nonempty [of "nat i"] is_digit_plain
    by (intro strip_plain) auto
  moreover have "parse_nat (c # cs) = Inr (nat i)"
    using parse_nat_str_nat [of "nat i"] s by simp
  ultimately show ?thesis using False c
    by (simp add: int_of_str_def py_str_def s)
qed

lemma py_int_json_key: "py_int (json_key (IntKey i)) = Inr i"
  by (simp add: int_of_str_py_str)

lemma dict_set_fresh: "k \<notin> set (dict_keys d) \<Longrightarrow> dict_set d k v = d @ [(k, v)]"
  by (induction d k v rule: dict_set.induct) (auto simp: dict_keys_def)

text \<open>Integer keys, as they are or as JSON text, come back in the order they went in.\<close>

lemma int_keys_restore:
  assumes "distinct (dict_keys acc @ dict_keys d)"
  shows "int_keys acc (map (\<lambda>(k, v). (IntKey k, v)) d) = Inr (acc @ d)"
    and "int_keys acc (json_dump_load_keys (map (\<lambda>(k, v). (IntKey k, v)) d)) = Inr (acc @ d)"
  using assms
proof (induction d arbitrary: acc)
  case Nil
  { case 1 show ?case by simp }
  { case 2 show ?case by (simp add: json_dump_load_keys_def) }
next
  case (Cons p d)
  obtain k v where p: "p = (k, v)" by (cases p)
  { case 1
    then have fresh: "k \<notin> set (dict_keys acc)"
      and rest: "distinct (dict_keys (acc @ [(k, v)]) @ dict_keys d)"
      by (auto simp: p dict_keys_def)
    show ?case
      using Cons.IH(1) [OF rest] by (simp add: p dict_set_fresh [OF fresh]) }
  { case 2
    then have fresh: "k \<notin> set (dict_keys acc)"
      and rest: "distinct (dict_keys (acc @ [(k, v)]) @ dict_keys d)"
      by (auto simp: p dict_keys_def)
    show ?case
      using Cons.IH(2) [OF rest]
      by (simp add: p dict_set_fresh [OF fresh] json_dump_load_keys_def int_of_str_py_str) }
qed

lemma get_relationship_set:
  "get_relationship (set_relationship r t v) t = max (- 100) (min 100 v)"
  by (simp add: get_relationship_def set_relationship_def dict_get_set data_get_def)

text \<open>
  C4: for every RelationshipComponent (a dictionary, so with distinct keys), after
  \<open>set_relationship(7, 60)\<close> the record \<open>to_dict\<close> gives is read back by \<open>from_dict\<close>,
  directly or after the keys went through JSON as text, into a component with exactly
  the relationships the component had: \<open>get_relationship(7)\<close> is 60, and the keys of the
  restored mapping are integers again (the mapping is an \<open>(int, int) dict\<close>), in their
  order.
\<close>

theorem C4_relationship_roundtrip:
  assumes "dict_wf (relationships r)"
  shows "RelationshipComponent_from_dict (RelationshipComponent_to_dict (set_relationship r 7 60))
           = Inr (RelationshipComponent_init (relationships (set_relationship r 7 60)))
       \<and> RelationshipComponent_from_dict
           (json_dump_load (RelationshipComponent_to_dict (set_relationship r 7 60)))
           = Inr (RelationshipComponent_init (relationships (set_relationship r 7 60)))
       \<and> get_relationship (RelationshipComponent_init (relationships (set_relationship r 7 60))) 7
           = 60"
proof -
  let ?rs = "relationships (set_relationship r 7 60)"
  have wf: "distinct (dict_keys [] @ dict_keys ?rs)"
    using dict_wf_set [OF assms] by (simp add: set_relationship_def dict_wf_def dict_keys_def)
  have "get_relationship (RelationshipComponent_init ?rs) 7 = get_relationship (set_relationship r 7 60) 7"
    by (simp add: get_relationship_def RelationshipComponent_init_def)
  then have "get_relationship (RelationshipComponent_init ?rs) 7 = 60"
    by (simp add: get_relationship_set)
  then show ?thesis
    using int_keys_restore [OF wf]
    by (simp add: RelationshipComponent_from_dict_def RelationshipComponent_to_dict_def
        Component_to_dict_def json_dump_load_def data_get_def)
qed


theorem C4_relationship_roundtrip_witness:
  "dict_wf (relationships player_relationships)
   \<and> d_relationships (RelationshipComponent_to_dict (set_relationship player_relationships 7 60))
       = Some [(IntKey 2, 60), (IntKey (- 3), 30), (IntKey 7, 60)]
   \<and> d_relationships
         (json_dump_load (RelationshipComponent_to_dict (set_relationship player_relationships 7 60)))
       = Some [(StrKey ''2'', 60), (StrKey ''-3'', 30), (StrKey ''7'', 60)]
   \<and> RelationshipComponent_from_dict
         (json_dump_load (RelationshipComponent_to_dict (set_relationship player_relationships 7 60)))
       = Inr \<lparr>entity_id = None, relationships = [(2, 60), (- 3, 30), (7, 60)]\<rparr>
   \<and> RelationshipComponent_from_dict
         (RelationshipComponent_to_dict (set_relationship player_relationships 7 60))
       = Inr \<lparr>entity_id = None, relationships = [(2, 60), (- 3, 30), (7, 60)]\<rparr>
   \<and> get_relationship \<lparr>entity_id = None, relationships = [(2, 60), (- 3, 30), (7, 60)]\<rparr> 7 = 60"
  using C4_relationship_roundtrip [of player_relationships]
  by (simp add: player_relationships_def dict_wf_def dict_keys_def set_relationship_def
      RelationshipComponent_to_dict_def Component_to_dict_def json_dump_load_def
      json_dump_load_keys_def RelationshipComponent_init_def py_str_def digit_char_def
      str_nat.simps [of 2] str_nat.simps [of 3] str_nat.simps [of 7])


subsection \<open>Rounding to a double\<close>

lemma bit_length_bounds: "0 < n \<Longrightarrow> 2 ^ (bit_length n - 1) \<le> n \<and> n < 2 ^ bit_length n"
proof (induction n rule: bit_length.induct)
  case (1 n)
  show ?case
  proof (cases "n div 2 = 0")
    case True
    then have "n = 1" using "1.prems" by (simp add: div_eq_0_iff) 
    then show ?thesis by (simp add: bit_length.simps)
  next
    case False
    then have ih: "2 ^ (bit_length (n div 2) - 1) \<le> n div 2" "n div 2 < 2 ^ bit_length (n div 2)"
      using 1 by simp_all
    have pos: "0 < bit_length (n div 2)"
      using False by (subst bit_length.simps) simp
    have bl: "bit_length n = Suc (bit_length (n div 2))"
      using "1.prems" by (subst bit_length.simps) simp
    have "(2::nat) ^ bit_length (n div 2) = 2 * 2 ^ (bit_length (n div 2) - 1)"
      using pos by (cases "bit_length (n div 2)") simp_all
    then have "2 ^ bit_length (n div 2) \<le> n" using ih(1) by linarith
    moreover have "n < 2 * 2 ^ bit_length (n div 2)" using ih(2) by linarith
    ultimately show ?thesis by (simp add: bl)
  qed
qed

lemma bit_length_eq:
  assumes "2 ^ k \<le> n" and "n < 2 ^ Suc k"
  shows "bit_length n = Suc k"
proof -
  have n: "0 < n" using assms(1) by (metis gr0I not_le zero_less_numeral zero_less_power)
  note b = bit_length_bounds [OF n]
  have "(2::nat) ^ (bit_length n - 1) < 2 ^ Suc k" using b assms(2) by linarith
  then have 1: "bit_length n - 1 < Suc k" by (rule power_less_imp_less_exp [rotated]) simp
  have "(2::nat) ^ k < 2 ^ bit_length n" using b assms(1) by linarith
  then have 2: "k < bit_length n" by (rule power_less_imp_less_exp [rotated]) simp
  from 1 2 show ?thesis by linarith
qed


lemma nat_between:
  assumes "2 ^ k \<le> (z::int)" and "z < 2 ^ Suc k"
  shows "2 ^ k \<le> nat z \<and> nat z < 2 ^ Suc k"
proof -
  have "(0::int) \<le> 2 ^ k" by simp
  then have z: "0 \<le> z" using assms(1) by linarith
  have "int (2 ^ k) \<le> int (nat z)" "int (nat z) < int (2 ^ Suc k)"
    using assms z by simp_all
  then show ?thesis by (simp only: of_nat_le_iff of_nat_less_iff)
qed

lemma floor_log2_nonneg:
  assumes "2 ^ k \<le> x" and "x < 2 ^ Suc k"
  shows "floor_log2 x = int k"
proof -
  have one: "1 \<le> x"
    using assms(1) one_le_power [of "2::rat" k] by linarith
  have "of_int (2 ^ k) \<le> x" using assms(1) by simp
  then have lo: "2 ^ k \<le> \<lfloor>x\<rfloor>" by (simp only: le_floor_iff)
  have "x < of_int (2 ^ Suc k)" using assms(2) by simp
  then have hi: "\<lfloor>x\<rfloor> < 2 ^ Suc k" by (simp only: floor_less_iff)
  have "bit_length (nat \<lfloor>x\<rfloor>) = Suc k"
    using nat_between [OF lo hi] by (intro bit_length_eq) simp_all
  then show ?thesis using one by (simp add: floor_log2_def)
qed

lemma floor_log2_neg:
  assumes "1 / 2 ^ Suc k \<le> x" and "x < 1 / 2 ^ k"
  shows "floor_log2 x = - int (Suc k)"
proof -
  have "(0::rat) < 1 / 2 ^ Suc k" by simp
  then have pos: "0 < x" using assms(1) by linarith
  have "(1::rat) / 2 ^ k \<le> 1" by simp
  then have small: "\<not> 1 \<le> x" using assms(2) by linarith
  have lo: "2 ^ k < 1 / x"
    using assms(2) pos by (simp add: field_simps)
  have hi: "1 / x \<le> 2 ^ Suc k"
    using assms(1) pos by (simp add: field_simps)
  have "of_int (2 ^ k) < 1 / x" using lo by simp
  then have c1: "2 ^ k < \<lceil>1 / x\<rceil>" by (simp only: less_ceiling_iff)
  have "1 / x \<le> of_int (2 ^ Suc k)" using hi by simp
  then have c2: "\<lceil>1 / x\<rceil> \<le> 2 ^ Suc k" by (simp only: ceiling_le_iff)
  have "2 ^ k \<le> \<lceil>1 / x\<rceil> - 1" "\<lceil>1 / x\<rceil> - 1 < 2 ^ Suc k"
    using c1 c2 by linarith+
  then have "bit_length (nat (\<lceil>1 / x\<rceil> - 1)) = Suc k"
    using nat_between [of k "\<lceil>1 / x\<rceil> - 1"] by (intro bit_length_eq) simp_all
  then show ?thesis using small by (simp add: floor_log2_def)
qed

lemma floor_log2_eq:
  assumes "pow2 e \<le> x" and "x < pow2 (e + 1)"
  shows "floor_log2 x = e"
proof (cases "0 \<le> e")
  case True
  then have "2 ^ nat e \<le> x" "x < 2 ^ Suc (nat e)"
    using assms by (simp_all add: pow2_def nat_add_distrib)
  from floor_log2_nonneg [OF this] True show ?thesis by simp
next
  case False
  define k where "k = nat (- e - 1)"
  have k: "e = - int (Suc k)" "nat (- e) = Suc k" "nat (- (e + 1)) = k"
    using False by (simp_all add: k_def)
  have "1 / 2 ^ Suc k \<le> x"
    using assms(1) False by (simp add: pow2_def k(2))
  moreover have "x < 1 / 2 ^ k"
  proof (cases "e + 1 = 0")
    case True
    then have "k = 0" using k(1) by simp
    then show ?thesis using assms(2) True by (simp add: pow2_def)
  next
    case ne: False
    then have "\<not> 0 \<le> e + 1" using False by linarith
    then show ?thesis using assms(2) by (simp add: pow2_def k_def)
  qed
  ultimately show ?thesis
    using floor_log2_neg [of k x] k(1) by simp
qed

lemma round_half_even_int: "round_half_even (of_int n) = n"
  by (simp add: round_half_even_def)


lemma round_half_even_near:
  assumes "of_int n - 1 / 2 < x" and "x < of_int n + 1 / 2"
  shows "round_half_even x = n"
proof (cases "of_int n \<le> x")
  case True
  then have "\<lfloor>x\<rfloor> = n" using assms(2) by (intro floor_unique) linarith+
  then show ?thesis using assms(2) by (simp add: round_half_even_def)
next
  case False
  then have "\<lfloor>x\<rfloor> = n - 1" using assms(1) by (intro floor_unique) simp_all
  then show ?thesis using assms(1) False by (simp add: round_half_even_def)
qed

lemma float64_round_eqI:
  assumes "pow2 e \<le> \<bar>x\<bar>" and "\<bar>x\<bar> < pow2 (e + 1)" and "- 1022 \<le> e"
    and "round_half_even (x / pow2 (e - 52)) = n"
  shows "float64_round x = of_int n * pow2 (e - 52)"
proof -
  have "0 < pow2 e" by (simp add: pow2_def)
  then have "x \<noteq> 0" using assms(1) by auto
  then show ?thesis
    using floor_log2_eq [OF assms(1,2)] assms(3,4) by (simp add: float64_round_def Let_def max_def)
qed


lemma float64_round_exact:
  assumes "pow2 e \<le> \<bar>x\<bar>" and "\<bar>x\<bar> < pow2 (e + 1)" and "- 1022 \<le> e"
    and "x / pow2 (e - 52) = of_int n"
  shows "float64_round x = x"
proof -
  have "round_half_even (x / pow2 (e - 52)) = n"
    by (simp add: assms(4) round_half_even_int)
  from float64_round_eqI [OF assms(1-3) this]
  have "float64_round x = (x / pow2 (e - 52)) * pow2 (e - 52)" by (simp add: assms(4))
  moreover have "pow2 (e - 52) \<noteq> 0" by (simp add: pow2_def)
  ultimately show ?thesis by simp
qed

lemma r50: "float64_round 50 = 50"
  by (rule float64_round_exact [of 5 _ "50 * 2 ^ 47"]) (simp_all add: pow2_def)

lemma r100: "float64_round 100 = 100" "float64_round 70 = 70" "float64_round 80 = 80"
  by (rule float64_round_exact [of 6 _ "100 * 2 ^ 46"], simp_all add: pow2_def)
     (rule float64_round_exact [of 6 _ "70 * 2 ^ 46"], simp_all add: pow2_def,
      rule float64_round_exact [of 6 _ "80 * 2 ^ 46"], simp_all add: pow2_def)

lemma r_tiny: "float64_round (1 / 2 ^ 70) = 1 / 2 ^ 70"
  by (rule float64_round_exact [of "- 70" _ "2 ^ 52"]) (simp_all add: pow2_def)

lemma r_absorb: "float64_round (100 - 1 / 2 ^ 70) = 100"
proof -
  have "round_half_even ((100 - 1 / 2 ^ 70) / pow2 (6 - 52)) = 100 * 2 ^ 46"
    by (rule round_half_even_near) (simp_all add: pow2_def)
  from float64_round_eqI [OF _ _ _ this] show ?thesis by (simp add: pow2_def)
qed


lemma pow2_pos: "0 < pow2 e"
  by (simp add: pow2_def)

lemma pow2_add: "pow2 (a + b) = pow2 a * pow2 b"
proof -
  have p: "pow2 e = 2 powi e" for e
    by (simp add: pow2_def power_int_def field_simps)
  show ?thesis by (simp add: p power_int_add)
qed

lemma pow2_mono: "a \<le> b \<Longrightarrow> pow2 a \<le> pow2 b"
proof -
  have p: "pow2 e = 2 powi e" for e
    by (simp add: pow2_def power_int_def field_simps)
  show "a \<le> b \<Longrightarrow> pow2 a \<le> pow2 b"
    by (simp add: p power_int_increasing)
qed

lemma pow2_less_cancel: "pow2 a < pow2 b \<Longrightarrow> a < b"
  using pow2_mono [of b a] by (cases "a < b") auto

lemma floor_log2_bounds:
  assumes "0 < x"
  shows "pow2 (floor_log2 x) \<le> x \<and> x < pow2 (floor_log2 x + 1)"
proof (cases "1 \<le> x")
  case True
  let ?n = "nat \<lfloor>x\<rfloor>" and ?L = "bit_length (nat \<lfloor>x\<rfloor>)"
  have f1: "1 \<le> \<lfloor>x\<rfloor>" using True by (simp add: le_floor_iff)
  then have n: "0 < ?n" and nn: "int ?n = \<lfloor>x\<rfloor>" by simp_all
  note b = bit_length_bounds [OF n]
  have L: "0 < ?L" using n by (subst bit_length.simps) simp
  have "int (2 ^ (?L - 1)) \<le> int ?n" "int ?n < int (2 ^ ?L)"
    using b by (simp_all only: of_nat_le_iff of_nat_less_iff)
  then have i: "2 ^ (?L - 1) \<le> \<lfloor>x\<rfloor>" "\<lfloor>x\<rfloor> < 2 ^ ?L"
    unfolding nn by simp_all
  have "of_int (2 ^ (?L - 1)) \<le> x" using i(1) by (simp only: le_floor_iff)
  then have lo: "2 ^ (?L - 1) \<le> x" by simp
  have "x < of_int (2 ^ ?L)" using i(2) by (simp only: floor_less_iff)
  then have hi: "x < 2 ^ ?L" by simp
  have fl: "floor_log2 x = int ?L - 1" using True by (simp add: floor_log2_def)
  have e: "nat (int ?L - 1) = ?L - 1" "nat (int ?L - 1 + 1) = ?L" "0 \<le> int ?L - 1"
    using L by simp_all
  have "pow2 (int ?L - 1) = 2 ^ (?L - 1)" "pow2 (int ?L - 1 + 1) = 2 ^ ?L"
    unfolding pow2_def using e by simp_all
  then show ?thesis
    using lo hi by (simp only: fl)
next
  case False
  let ?c = "\<lceil>1 / x\<rceil>"
  let ?m = "nat (?c - 1)" and ?L = "bit_length (nat (\<lceil>1 / x\<rceil> - 1))"
  have y: "1 < 1 / x" using assms False by (simp add: field_simps)
  then have "of_int 1 < 1 / x" by (simp only: of_int_1)
  then have c1: "1 < ?c" by (simp only: less_ceiling_iff)
  have m: "0 < ?m" unfolding zero_less_nat_eq using c1 by linarith
  have mm: "int ?m = ?c - 1" by (rule nat_0_le) (use c1 in linarith)
  note b = bit_length_bounds [OF m]
  have L: "0 < ?L" using m by (subst bit_length.simps) simp
  have "int (2 ^ (?L - 1)) \<le> int ?m" "int ?m < int (2 ^ ?L)"
    using b by (simp_all only: of_nat_le_iff of_nat_less_iff)
  then have i: "2 ^ (?L - 1) < ?c" "?c \<le> 2 ^ ?L"
    unfolding mm by simp_all
  have "of_int (2 ^ (?L - 1)) < 1 / x" using i(1) by (simp only: less_ceiling_iff)
  then have "2 ^ (?L - 1) < 1 / x" by simp
  then have hi: "x < 1 / 2 ^ (?L - 1)"
    using assms by (simp add: field_simps)
  have "1 / x \<le> of_int (2 ^ ?L)" using i(2) by (simp only: ceiling_le_iff)
  then have "1 / x \<le> 2 ^ ?L" by simp
  then have lo: "1 / 2 ^ ?L \<le> x"
    using assms by (simp add: field_simps)
  have fl: "floor_log2 x = - int ?L" using False by (simp add: floor_log2_def)
  have neg: "\<not> 0 \<le> - int ?L" using L by simp
  have lo': "pow2 (- int ?L) \<le> x"
    using lo neg by (simp add: pow2_def)
  have hi': "x < pow2 (- int ?L + 1)"
  proof (cases "?L = 1")
    case True
    then show ?thesis using hi by (simp add: pow2_def)
  next
    case ne: False
    then have "\<not> 0 \<le> - int ?L + 1" "nat (- (- int ?L + 1)) = ?L - 1" using L by linarith+
    then show ?thesis using hi unfolding pow2_def by (simp only: if_False)
  qed
  show ?thesis using lo' hi' by (simp add: fl)
qed


lemma pow2_neg: "pow2 (- e) = 1 / pow2 e"
  using pow2_add [of e "- e"] pow2_pos [of e] by (simp add: pow2_def field_simps)

text \<open>Between 0 and 100, subtracting a multiple of \<open>2 ^ -46\<close> from 100.0 is exact.\<close>

lemma float64_round_grid:
  assumes "0 \<le> x" and "x \<le> 100" and "x * 2 ^ 46 = of_int k"
  shows "float64_round x = x"
proof (cases "x = 0")
  case True
  then show ?thesis by (simp add: float64_round_def)
next
  case False
  then have pos: "0 < x" using assms(1) by simp
  let ?e = "floor_log2 x"
  note b = floor_log2_bounds [OF pos]
  have "pow2 ?e < pow2 7" using b assms(2) by (simp add: pow2_def)
  then have up: "?e \<le> 6" using pow2_less_cancel [of ?e 7] by simp
  have "0 < x * 2 ^ 46" using pos by simp
  then have "0 < k" using assms(3) by simp
  then have "1 \<le> k" by simp
  then have "(1::rat) \<le> of_int k" by simp
  then have "1 \<le> x * 2 ^ 46" using assms(3) by simp
  then have "pow2 (- 46) \<le> x" by (simp add: pow2_def field_simps)
  then have "pow2 (- 46) < pow2 (?e + 1)" using b by linarith
  then have lo: "- 46 \<le> ?e" using pow2_less_cancel [of "- 46" "?e + 1"] by simp
  have "x / pow2 (?e - 52) = x * pow2 (52 - ?e)"
    using pow2_neg [of "?e - 52"] by simp
  also have "pow2 (52 - ?e) = pow2 46 * pow2 (6 - ?e)"
    using pow2_add [of 46 "6 - ?e"] by simp
  also have "pow2 46 = 2 ^ 46" by (simp add: pow2_def)
  also have "pow2 (6 - ?e) = of_int (2 ^ nat (6 - ?e))" using up by (simp add: pow2_def)
  finally have "x / pow2 (?e - 52) = of_int (k * 2 ^ nat (6 - ?e))"
    using assms(3) by (simp add: mult.assoc [symmetric])
  from float64_round_exact [OF _ _ _ this] b lo pos show ?thesis by simp
qed

lemma round_half_even_range: "\<lfloor>x\<rfloor> \<le> round_half_even x \<and> round_half_even x \<le> \<lfloor>x\<rfloor> + 1"
  by (simp add: round_half_even_def Let_def)

lemma round_half_even_mono:
  assumes "x \<le> y"
  shows "round_half_even x \<le> round_half_even y"
proof (cases "\<lfloor>x\<rfloor> = \<lfloor>y\<rfloor>")
  case True
  have "x - of_int \<lfloor>x\<rfloor> \<le> y - of_int \<lfloor>x\<rfloor>" using assms by simp
  then show ?thesis
    by (simp add: round_half_even_def Let_def True [symmetric])
next
  case False
  then have "\<lfloor>x\<rfloor> < \<lfloor>y\<rfloor>" using floor_mono [OF assms] by linarith
  then show ?thesis
    using round_half_even_range [of x] round_half_even_range [of y] by linarith
qed

lemma round_half_even_ge: "of_int n \<le> x \<Longrightarrow> n \<le> round_half_even x"
  using round_half_even_mono [of "of_int n" x] by (simp add: round_half_even_int)

lemma round_half_even_le: "x \<le> of_int n \<Longrightarrow> round_half_even x \<le> n"
  using round_half_even_mono [of x "of_int n"] by (simp add: round_half_even_int)

lemma round_half_even_minus: "round_half_even (- x) = - round_half_even x"
proof (cases "x = of_int \<lfloor>x\<rfloor>")
  case True
  then obtain n where "x = of_int n" ..
  then have "- x = of_int (- n)" by simp
  then show ?thesis using \<open>x = of_int n\<close> by (simp only: round_half_even_int)
next
  case False
  then have lt: "of_int \<lfloor>x\<rfloor> < x" using of_int_floor_le [of x] by linarith
  have fl: "\<lfloor>- x\<rfloor> = - \<lfloor>x\<rfloor> - 1"
    using lt floor_correct [of x] by (intro floor_unique) simp_all
  have ev: "even (- \<lfloor>x\<rfloor> - 1) \<longleftrightarrow> odd \<lfloor>x\<rfloor>" by simp
  show ?thesis
    using lt by (simp add: round_half_even_def Let_def fl ev del: even_diff) 
qed


lemma pow2_shift:
  "pow2 (e + 1) = of_int (2 ^ 53) * pow2 (e - 52)"
  "pow2 e = of_int (2 ^ 52) * pow2 (e - 52)"
proof -
  have "pow2 (e + 1) = pow2 (53 + (e - 52))" by (rule arg_cong [of _ _ pow2]) simp
  also have "\<dots> = pow2 53 * pow2 (e - 52)" by (rule pow2_add)
  also have "pow2 53 = of_int (2 ^ 53)" by (simp add: pow2_def)
  finally show "pow2 (e + 1) = of_int (2 ^ 53) * pow2 (e - 52)" .
  have "pow2 e = pow2 (52 + (e - 52))" by (rule arg_cong [of _ _ pow2]) simp
  also have "\<dots> = pow2 52 * pow2 (e - 52)" by (rule pow2_add)
  also have "pow2 52 = of_int (2 ^ 52)" by (simp add: pow2_def)
  finally show "pow2 e = of_int (2 ^ 52) * pow2 (e - 52)" .
qed

lemma float64_round_pos:
  assumes "0 < x"
  shows "float64_round x =
     of_int (round_half_even (x / pow2 (max (floor_log2 x) (- 1022) - 52)))
       * pow2 (max (floor_log2 x) (- 1022) - 52)"
  using assms by (simp add: float64_round_def Let_def)

lemma float64_round_minus: "float64_round (- x) = - float64_round x"
  by (simp add: float64_round_def Let_def round_half_even_minus)

text \<open>A positive number rounds into the closure of its binade.\<close>

lemma float64_round_upper:
  assumes "0 < x"
  shows "float64_round x \<le> pow2 (max (floor_log2 x) (- 1022) + 1)"
proof -
  let ?e = "max (floor_log2 x) (- 1022)"
  let ?u = "pow2 (?e - 52)"
  have u: "0 < ?u" by (rule pow2_pos)
  have "x < pow2 (floor_log2 x + 1)" using floor_log2_bounds [OF assms] by simp
  also have "\<dots> \<le> pow2 (?e + 1)" by (rule pow2_mono) simp
  also have "\<dots> = of_int (2 ^ 53) * ?u" by (rule pow2_shift)
  finally have "x < of_int (2 ^ 53) * ?u" .
  then have "x / ?u \<le> of_int (2 ^ 53)"
    using u by (simp only: pos_divide_le_eq)
  then have "round_half_even (x / ?u) \<le> 2 ^ 53" by (rule round_half_even_le)
  then have "of_int (round_half_even (x / ?u)) \<le> (of_int (2 ^ 53) :: rat)"
    by (simp only: of_int_le_iff)
  then have "of_int (round_half_even (x / ?u)) * ?u \<le> of_int (2 ^ 53) * ?u"
    using u by (simp only: mult_le_cancel_right_pos)
  also have "of_int (2 ^ 53) * ?u = pow2 (?e + 1)" by (rule pow2_shift [symmetric])
  finally show ?thesis by (simp only: float64_round_pos [OF assms])
qed

lemma float64_round_lower:
  assumes "0 < x" and "- 1022 \<le> floor_log2 x"
  shows "pow2 (floor_log2 x) \<le> float64_round x"
proof -
  let ?e = "floor_log2 x"
  let ?u = "pow2 (?e - 52)"
  have m: "max ?e (- 1022) = ?e" using assms(2) by simp
  have u: "0 < ?u" by (rule pow2_pos)
  have e: "pow2 ?e = of_int (2 ^ 52) * ?u" by (rule pow2_shift)
  have "pow2 ?e \<le> x" using floor_log2_bounds [OF assms(1)] by simp
  then have "of_int (2 ^ 52) * ?u \<le> x" by (simp only: e)
  then have "of_int (2 ^ 52) \<le> x / ?u"
    using u by (simp only: pos_le_divide_eq)
  then have "2 ^ 52 \<le> round_half_even (x / ?u)" by (rule round_half_even_ge)
  then have "(of_int (2 ^ 52) :: rat) \<le> of_int (round_half_even (x / ?u))"
    by (simp only: of_int_le_iff)
  then have "of_int (2 ^ 52) * ?u \<le> of_int (round_half_even (x / ?u)) * ?u"
    using u by (simp only: mult_le_cancel_right_pos)
  then show ?thesis
    using float64_round_pos [OF assms(1)] by (simp only: m e)
qed

lemma float64_round_nonneg: "0 \<le> x \<Longrightarrow> 0 \<le> float64_round x"
proof (cases "x = 0")
  case True
  then show ?thesis by (simp add: float64_round_def)
next
  case False
  assume "0 \<le> x"
  then have pos: "0 < x" using False by simp
  let ?u = "pow2 (max (floor_log2 x) (- 1022) - 52)"
  have u: "0 < ?u" by (rule pow2_pos)
  then have "of_int 0 \<le> x / ?u" using pos by simp
  then have "0 \<le> round_half_even (x / ?u)" by (rule round_half_even_ge)
  then show ?thesis
    using u by (simp add: float64_round_pos [OF pos])
qed

lemma floor_log2_mono:
  assumes "0 < x" and "x \<le> y"
  shows "floor_log2 x \<le> floor_log2 y"
proof -
  have "0 < y" using assms by linarith
  from floor_log2_bounds [OF assms(1)] floor_log2_bounds [OF this] assms(2)
  have "pow2 (floor_log2 x) < pow2 (floor_log2 y + 1)" by linarith
  from pow2_less_cancel [OF this] show ?thesis by simp
qed

lemma float64_round_mono_pos:
  assumes "0 < x" and "x \<le> y"
  shows "float64_round x \<le> float64_round y"
proof -
  have y: "0 < y" using assms by linarith
  let ?ex = "max (floor_log2 x) (- 1022)" and ?ey = "max (floor_log2 y) (- 1022)"
  have le: "?ex \<le> ?ey" using floor_log2_mono [OF assms] by simp
  show ?thesis
  proof (cases "?ex = ?ey")
    case True
    let ?u = "pow2 (?ey - 52)"
    have u: "0 < ?u" by (rule pow2_pos)
    then have "x / ?u \<le> y / ?u" using assms(2) by (simp add: divide_right_mono)
    then have "round_half_even (x / ?u) \<le> round_half_even (y / ?u)"
      by (rule round_half_even_mono)
    then have "(of_int (round_half_even (x / ?u)) :: rat) \<le> of_int (round_half_even (y / ?u))"
      by (simp only: of_int_le_iff)
    then have "of_int (round_half_even (x / ?u)) * ?u \<le> of_int (round_half_even (y / ?u)) * ?u"
      using u by (simp only: mult_le_cancel_right_pos)
    then show ?thesis
      by (simp only: float64_round_pos [OF assms(1)] float64_round_pos [OF y] True)
  next
    case False
    then have lt: "?ex + 1 \<le> ?ey" using le by linarith
    then have normal: "- 1022 \<le> floor_log2 y" and ey: "?ey = floor_log2 y" by simp_all
    have "float64_round x \<le> pow2 (?ex + 1)" by (rule float64_round_upper [OF assms(1)])
    also have "\<dots> \<le> pow2 ?ey" by (rule pow2_mono [OF lt])
    also have "\<dots> \<le> float64_round y"
      unfolding ey by (rule float64_round_lower [OF y normal])
    finally show ?thesis .
  qed
qed

text \<open>Rounding to a double never reverses an order.\<close>

lemma float64_round_mono:
  assumes "x \<le> y"
  shows "float64_round x \<le> float64_round y"
proof -
  consider "0 < x" | "x \<le> 0" "0 \<le> y" | "y < 0" by linarith
  then show ?thesis
  proof cases
    case 1
    then show ?thesis using assms by (rule float64_round_mono_pos)
  next
    case 2
    have "float64_round x \<le> 0"
      using float64_round_nonneg [of "- x"] 2(1) by (simp add: float64_round_minus)
    then show ?thesis using float64_round_nonneg [OF 2(2)] by linarith
  next
    case 3
    then have "0 < - y" "- y \<le> - x" using assms by simp_all
    from float64_round_mono_pos [OF this] show ?thesis
      by (simp add: float64_round_minus)
  qed
qed

lemma float_sub_antimono: "v \<le> w \<Longrightarrow> float_sub c w \<le> float_sub c v"
  by (simp add: float_sub_def float64_round_mono)


lemma float_sub_100_grid:
  assumes "0 \<le> v" and "v \<le> 100" and "v * 2 ^ 46 \<in> \<int>"
  shows "float_sub 100 v = 100 - v"
proof -
  from assms(3) obtain k where k: "v * 2 ^ 46 = of_int k"
    by (auto elim: Ints_cases)
  have "(100 - v) * 2 ^ 46 = of_int (100 * 2 ^ 46 - k)"
    using k by (simp add: algebra_simps)
  from float64_round_grid [OF _ _ this] assms(1,2) show ?thesis
    by (simp add: float_sub_def)
qed


subsection \<open>The most urgent need\<close>

text \<open>
  C8, as the specification states it: \<open>get_most_urgent_need\<close> returns the need whose
  value is numerically lowest. It returns the need whose computed urgency \<open>100.0 - value\<close>
  is greatest, and the subtraction rounds: for hunger \<open>2 ^ -70\<close>, energy 0 and social 50
  (all doubles in the range of a need), the urgencies of hunger and energy are both
  exactly 100.0, and hunger, the first of the two, is returned although energy alone has
  the lowest value.
\<close>

theorem C8_most_urgent_need_counterexample:
  "is_float64 (1 / 2 ^ 70) \<and> is_float64 0 \<and> is_float64 50
   \<and> energy \<lparr>entity_id = None, hunger = 1 / 2 ^ 70, energy = 0, social = 50\<rparr>
       < hunger \<lparr>entity_id = None, hunger = 1 / 2 ^ 70, energy = 0, social = 50\<rparr>
   \<and> energy \<lparr>entity_id = None, hunger = 1 / 2 ^ 70, energy = 0, social = 50\<rparr>
       < social \<lparr>entity_id = None, hunger = 1 / 2 ^ 70, energy = 0, social = 50\<rparr>
   \<and> float_sub 100 (1 / 2 ^ 70) = 100 \<and> float_sub 100 0 = 100
   \<and> get_most_urgent_need \<lparr>entity_id = None, hunger = 1 / 2 ^ 70, energy = 0, social = 50\<rparr>
       = Inr ''hunger''"
proof -
  let ?n = "\<lparr>entity_id = None, hunger = 1 / 2 ^ 70, energy = 0, social = 50\<rparr>"
  have sel: "hunger ?n = 1 / 2 ^ 70" "energy ?n = 0" "social ?n = 50"
    by (simp_all only: NeedsComponent.select_convs)
  have r0: "float64_round 0 = 0"
    by (simp add: float64_round_def)
  have dbl: "is_float64 (1 / 2 ^ 70)" "is_float64 0" "is_float64 50"
    unfolding is_float64_def r_tiny r0 r50 by simp_all
  have uh: "float_sub 100 (1 / 2 ^ 70) = 100"
    unfolding float_sub_def by (rule r_absorb)
  have ue: "float_sub 100 0 = 100" and us: "float_sub 100 50 = 50"
    by (simp_all add: float_sub_def r100 r50)
  have "get_most_urgent_need ?n = Inr ''hunger''"
    unfolding get_most_urgent_need_def sel uh ue us by simp
  moreover have "energy ?n < hunger ?n" "energy ?n < social ?n"
    unfolding sel by simp_all
  ultimately show ?thesis
    using dbl uh ue by (intro conjI)
qed

lemma max_loop_three:
  "max_loop k1 (u1::'v::linorder) [(k2, u2), (k3, u3)] =
     (if u2 \<le> u1 \<and> u3 \<le> u1 then k1 else if u3 \<le> u2 then k2 else k3)"
  by auto

text \<open>
  C8, amended: for every NeedsComponent, \<open>get_most_urgent_need\<close> returns the name of the
  need whose urgency \<open>100.0 - value\<close>, as computed in double precision, is greatest, and
  among needs of equal computed urgency the first in the order hunger, energy, social.
  Its computed urgency is always that of the numerically lowest value (rounding keeps
  the order), so it is the need of lowest value or one whose urgency rounds to the same
  double. Whenever the three subtractions are exact, it is the need whose value is
  numerically lowest, with ties at the lowest value resolved in the order hunger, energy,
  social; they are exact when the three values lie between 0 and 100 and are multiples
  of \<open>2 ^ -46\<close>.
\<close>

theorem C8_most_urgent_need:
  "get_most_urgent_need n =
     Inr (if float_sub 100 (energy n) \<le> float_sub 100 (hunger n)
             \<and> float_sub 100 (social n) \<le> float_sub 100 (hunger n) then ''hunger''
          else if float_sub 100 (social n) \<le> float_sub 100 (energy n) then ''energy''
          else ''social'')
   \<and> (\<exists>(need, v) \<in> set [(''hunger'', hunger n), (''energy'', energy n), (''social'', social n)].
        get_most_urgent_need n = Inr need
        \<and> float_sub 100 v = float_sub 100 (min (hunger n) (min (energy n) (social n))))
   \<and> (float_sub 100 (hunger n) = 100 - hunger n
        \<and> float_sub 100 (energy n) = 100 - energy n
        \<and> float_sub 100 (social n) = 100 - social n
      \<longrightarrow> get_most_urgent_need n =
            Inr (if hunger n \<le> energy n \<and> hunger n \<le> social n then ''hunger''
                 else if energy n \<le> social n then ''energy''
                 else ''social''))
   \<and> ((\<forall>v \<in> {hunger n, energy n, social n}. 0 \<le> v \<and> v \<le> 100 \<and> v * 2 ^ 46 \<in> \<int>)
      \<longrightarrow> get_most_urgent_need n =
            Inr (if hunger n \<le> energy n \<and> hunger n \<le> social n then ''hunger''
                 else if energy n \<le> social n then ''energy''
                 else ''social''))"
proof -
  have first: "get_most_urgent_need n =
     Inr (if float_sub 100 (energy n) \<le> float_sub 100 (hunger n)
             \<and> float_sub 100 (social n) \<le> float_sub 100 (hunger n) then ''hunger''
          else if float_sub 100 (social n) \<le> float_sub 100 (energy n) then ''energy''
          else ''social'')"
    by (simp add: get_most_urgent_need_def max_loop_three)
  have exact: "get_most_urgent_need n =
            Inr (if hunger n \<le> energy n \<and> hunger n \<le> social n then ''hunger''
                 else if energy n \<le> social n then ''energy''
                 else ''social'')"
    if "float_sub 100 (hunger n) = 100 - hunger n"
      and "float_sub 100 (energy n) = 100 - energy n"
      and "float_sub 100 (social n) = 100 - social n"
    unfolding first that by simp
  have grid: "float_sub 100 (hunger n) = 100 - hunger n
      \<and> float_sub 100 (energy n) = 100 - energy n
      \<and> float_sub 100 (social n) = 100 - social n"
    if "\<forall>v \<in> {hunger n, energy n, social n}. 0 \<le> v \<and> v \<le> 100 \<and> v * 2 ^ 46 \<in> \<int>"
    using that by (simp add: float_sub_100_grid)
  let ?low = "min (hunger n) (min (energy n) (social n))"
  have top: "float_sub 100 (hunger n) \<le> float_sub 100 ?low"
    "float_sub 100 (energy n) \<le> float_sub 100 ?low"
    "float_sub 100 (social n) \<le> float_sub 100 ?low"
    by (simp_all add: float_sub_antimono)
  have is_one: "?low = hunger n \<or> ?low = energy n \<or> ?low = social n"
    by (auto simp: min_def)
  have same: "\<exists>(need, v) \<in> set [(''hunger'', hunger n), (''energy'', energy n), (''social'', social n)].
        get_most_urgent_need n = Inr need \<and> float_sub 100 v = float_sub 100 ?low"
    unfolding first using top is_one by (auto simp: not_le) 
  show ?thesis
    using first same exact grid by blast
qed

theorem C8_most_urgent_need_witness:
  "float_sub 100 30 = 100 - 30 \<and> float_sub 100 20 = 100 - 20 \<and> float_sub 100 50 = 100 - 50
   \<and> get_most_urgent_need \<lparr>entity_id = None, hunger = 30, energy = 20, social = 50\<rparr>
       = Inr ''energy''
   \<and> get_most_urgent_need \<lparr>entity_id = None, hunger = 50, energy = 50, social = 50\<rparr>
       = Inr ''hunger''
   \<and> get_most_urgent_need \<lparr>entity_id = None, hunger = 50, energy = 20, social = 20\<rparr>
       = Inr ''energy''"
  using C8_most_urgent_need [of "\<lparr>entity_id = None, hunger = 30, energy = 20, social = 50\<rparr>"]
    C8_most_urgent_need [of "\<lparr>entity_id = None, hunger = 50, energy = 50, social = 50\<rparr>"]
    C8_most_urgent_need [of "\<lparr>entity_id = None, hunger = 50, energy = 20, social = 20\<rparr>"]
  by (simp add: float_sub_def r50 r100)


end
